theory Spec2Isabelle
  imports Main "HOL-Library.AList" "HOL-Library.Sublist" "HOL-Library.Char_ord"
    "HOL-Library.List_Lexorder"
begin

section \<open>Python strings\<close>

text \<open>
  A Python \<open>str\<close> is a \<open>string\<close>, and a character of the model is the character with
  the same code point: the strings of the model are the texts whose code points lie
  below 256. Text with a code point from 256 on has no counterpart here. The functions
  below are the string methods that \<open>main.py\<close> calls.
\<close>

definition startswith :: "string \<Rightarrow> string \<Rightarrow> bool" where
  "startswith s p = (take (length p) s = p)"

text \<open>\<open>s.split(sep)\<close> for a one-character separator: never returns the empty list.\<close>

fun split :: "char \<Rightarrow> string \<Rightarrow> string list" where
  "split sep [] = [[]]"
| "split sep (x # xs) =
     (if x = sep then [] # split sep xs
      else (case split sep xs of [] \<Rightarrow> [[x]] | w # ws \<Rightarrow> (x # w) # ws))"

text \<open>
  The white space of \<open>str.isspace\<close> and \<open>str.strip\<close> below code point 256: TAB, LF, VT, FF,
  CR (9 to 13), FS, GS, RS, US (28 to 31), the space (32), NEL (133, U+0085) and the
  no-break space (160, U+00A0).
\<close>

definition isspace :: "char \<Rightarrow> bool" where
  "isspace c =
     (let k = (of_char c :: nat)
      in (9 \<le> k \<and> k \<le> 13) \<or> (28 \<le> k \<and> k \<le> 32) \<or> k = 133 \<or> k = 160)"

text \<open>\<open>s.strip()\<close>: without the white space at both ends.\<close>

definition strip :: "string \<Rightarrow> string" where
  "strip s = rev (dropWhile isspace (rev (dropWhile isspace s)))"

text \<open>\<open>s.replace(" ", "_")\<close>.\<close>

definition replace_space :: "string \<Rightarrow> string" where
  "replace_space s = map (\<lambda>c. if c = CHR '' '' then CHR ''_'' else c) s"

text \<open>
  The decimal digits (\<open>str.isdecimal\<close>): below code point 256 these are \<open>0\<close> to \<open>9\<close> only.
  The superscript digits (code points 178, 179 and 185) are no decimal digits, and \<open>int\<close>
  refuses them.
\<close>

definition isdecimal :: "char \<Rightarrow> bool" where
  "isdecimal c = (let k = (of_char c :: nat) in 48 \<le> k \<and> k \<le> 57)"

definition digit_val :: "char \<Rightarrow> nat" where
  "digit_val c = of_char c - 48"

definition digit_char :: "nat \<Rightarrow> char" where
  "digit_char d = char_of (48 + d)"

text \<open>
  \<open>int(s)\<close> in base ten. The white space at both ends is skipped, then one sign is
  allowed, then come digits, with single underscores allowed between two digits; nothing
  else may occur. \<open>None\<close> is \<open>ValueError\<close>. The white space of \<open>int\<close> is not that of
  \<open>strip\<close>: among the ASCII characters it is the C white space (9 to 13 and the space),
  so FS, GS, RS and US are refused, and from code point 128 on it is the white space of
  \<open>str.isspace\<close> (133 and 160). \<open>int\<close> also refuses a text of more than 4300 digits; the
  program applies it to a piece of a file name, which is shorter, and the bound is left
  out.
\<close>

definition int_space :: "char \<Rightarrow> bool" where
  "int_space c =
     (let k = (of_char c :: nat) in (9 \<le> k \<and> k \<le> 13) \<or> k = 32 \<or> k = 133 \<or> k = 160)"

fun int_digits :: "nat \<Rightarrow> string \<Rightarrow> nat option" where
  "int_digits acc [] = Some acc"
| "int_digits acc [c] = (if isdecimal c then Some (10 * acc + digit_val c) else None)"
| "int_digits acc (c # d # cs) =
     (if isdecimal c then int_digits (10 * acc + digit_val c) (d # cs)
      else if c = CHR ''_'' \<and> isdecimal d then int_digits (10 * acc + digit_val d) cs
      else None)"

definition int_unsigned :: "string \<Rightarrow> nat option" where
  "int_unsigned s = (case s of [] \<Rightarrow> None | c # cs \<Rightarrow> if isdecimal c then int_digits 0 s else None)"

definition py_int :: "string \<Rightarrow> int option" where
  "py_int s =
     (case rev (dropWhile int_space (rev (dropWhile int_space s))) of
        [] \<Rightarrow> None
      | c # cs \<Rightarrow>
          if c = CHR ''-'' then map_option (\<lambda>n. - int n) (int_unsigned cs)
          else if c = CHR ''+'' then map_option int (int_unsigned cs)
          else map_option int (int_unsigned (c # cs)))"

text \<open>\<open>str(n)\<close>, as an f-string formats an integer.\<close>

function str_nat :: "nat \<Rightarrow> string" where
  "str_nat n = (if n < 10 then [digit_char n] else str_nat (n div 10) @ [digit_char (n mod 10)])"
  by pat_completeness auto
termination
  by (relation "measure id") auto

declare str_nat.simps [simp del]

definition str_int :: "int \<Rightarrow> string" where
  "str_int i = (if i < 0 then CHR ''-'' # str_nat (nat (- i)) else str_nat (nat i))"

text \<open>
  \<open>os.path.splitext\<close> on a name without a separator: the extension starts at the last
  dot, unless only dots precede it.
\<close>

definition splitext :: "string \<Rightarrow> string \<times> string" where
  "splitext p =
     (let ext = rev (takeWhile (\<lambda>c. c \<noteq> CHR ''.'') (rev p));
          stem = take (length p - length ext - 1) p
      in if CHR ''.'' \<in> set p \<and> (\<exists>c \<in> set stem. c \<noteq> CHR ''.'')
         then (stem, CHR ''.'' # ext) else (p, []))"

section \<open>Paths\<close>

text \<open>
  A \<open>pathlib.Path\<close> of this program is absolute: it is the list of its components below
  the root \<open>/\<close>. Components \<open>..\<close> are kept, as pathlib keeps them; empty components and
  \<open>.\<close> are dropped when a string is parsed.
\<close>

type_synonym path = "string list"

definition parse_parts :: "string \<Rightarrow> path" where
  "parse_parts s = filter (\<lambda>c. c \<noteq> [] \<and> c \<noteq> ''.'') (split CHR ''/'' s)"

text \<open>\<open>p / s\<close>: an absolute \<open>s\<close> replaces \<open>p\<close>.\<close>

definition join :: "path \<Rightarrow> string \<Rightarrow> path" where
  "join p s = (if startswith s ''/'' then parse_parts s else p @ parse_parts s)"

text \<open>\<open>p.name\<close>.\<close>

definition name_of :: "path \<Rightarrow> string" where
  "name_of p = (if p = [] then [] else last p)"

text \<open>A single ordinary component: what a session id, a group name or a file name is.\<close>

definition plain_name :: "string \<Rightarrow> bool" where
  "plain_name c = (c \<noteq> [] \<and> c \<noteq> ''.'' \<and> c \<noteq> ''..'' \<and> CHR ''/'' \<notin> set c)"

definition plain_path :: "path \<Rightarrow> bool" where
  "plain_path p = list_all plain_name p"

section \<open>The file system\<close>

text \<open>
  A tree of directories and regular files; there are no symbolic links, no permissions
  and no limit on the length of a name. A file holds raw bytes, a crop of a frame or a
  JSON document.
\<close>

datatype json = JStr string | JList "json list" | JObj "(string \<times> json) list"

datatype content = Bytes string | Crop string int int int int | Json json

datatype node = File content | Dir "(string \<times> node) list"

datatype exn =
    HTTPException nat string
  | FileNotFoundError
  | FileExistsError
  | NotADirectoryError
  | IsADirectoryError
  | OSError
  | ShutilError
  | RuntimeError string

text \<open>The node at a path without \<open>..\<close>.\<close>

fun node_at :: "node \<Rightarrow> path \<Rightarrow> node option" where
  "node_at n [] = Some n"
| "node_at (File d) (c # cs) = None"
| "node_at (Dir es) (c # cs) = (case map_of es c of None \<Rightarrow> None | Some m \<Rightarrow> node_at m cs)"

text \<open>
  Store (\<open>Some\<close>) or remove (\<open>None\<close>) the entry at a path without \<open>..\<close>; the parent
  directory must be there, otherwise nothing changes. The root is never removed.
\<close>

fun put :: "path \<Rightarrow> node option \<Rightarrow> node \<Rightarrow> node" where
  "put [] v n = (case v of None \<Rightarrow> n | Some m \<Rightarrow> m)"
| "put (c # cs) v (File d) = File d"
| "put [c] v (Dir es) =
     Dir (case v of None \<Rightarrow> AList.delete c es | Some m \<Rightarrow> AList.update c m es)"
| "put (c # d # cs) v (Dir es) =
     (case map_of es c of
        None \<Rightarrow> Dir es
      | Some m \<Rightarrow> Dir (AList.update c (put (d # cs) v m) es))"

text \<open>
  How the kernel walks a path: every component is looked up in a directory that exists,
  \<open>..\<close> goes to the parent (the root is its own parent), an empty component or \<open>.\<close>
  stays. The result is the path without \<open>..\<close> that was reached; its last component need
  not exist.
\<close>

definition step :: "path \<Rightarrow> string \<Rightarrow> path" where
  "step cur c = (if c = ''..'' then butlast cur else if c = [] \<or> c = ''.'' then cur else cur @ [c])"

fun walk :: "node \<Rightarrow> path \<Rightarrow> path \<Rightarrow> exn + path" where
  "walk n cur [] = Inr cur"
| "walk n cur (c # cs) =
     (case node_at n cur of
        None \<Rightarrow> Inl FileNotFoundError
      | Some (File d) \<Rightarrow> Inl NotADirectoryError
      | Some (Dir es) \<Rightarrow> walk n (step cur c) cs)"

definition stat :: "node \<Rightarrow> path \<Rightarrow> exn + node" where
  "stat n p =
     (case walk n [] p of
        Inl e \<Rightarrow> Inl e
      | Inr q \<Rightarrow> (case node_at n q of None \<Rightarrow> Inl FileNotFoundError | Some m \<Rightarrow> Inr m))"

text \<open>\<open>Path.exists\<close>, \<open>Path.is_dir\<close>, \<open>Path.is_file\<close>: a failing \<open>stat\<close> is \<open>False\<close>.\<close>

definition exists :: "node \<Rightarrow> path \<Rightarrow> bool" where
  "exists n p = (case stat n p of Inl e \<Rightarrow> False | Inr m \<Rightarrow> True)"

definition is_dir :: "node \<Rightarrow> path \<Rightarrow> bool" where
  "is_dir n p = (case stat n p of Inr (Dir es) \<Rightarrow> True | _ \<Rightarrow> False)"

definition is_file :: "node \<Rightarrow> path \<Rightarrow> bool" where
  "is_file n p = (case stat n p of Inr (File d) \<Rightarrow> True | _ \<Rightarrow> False)"

text \<open>
  The directory that is to hold the last component of \<open>p\<close>, and that component. A last
  component \<open>..\<close>, \<open>.\<close> or empty names a directory that exists already.
\<close>

definition parent_dir :: "node \<Rightarrow> path \<Rightarrow> exn + path" where
  "parent_dir n p =
     (case walk n [] (butlast p) of
        Inl e \<Rightarrow> Inl e
      | Inr q \<Rightarrow>
          (case node_at n q of
             None \<Rightarrow> Inl FileNotFoundError
           | Some (File d) \<Rightarrow> Inl NotADirectoryError
           | Some (Dir es) \<Rightarrow> Inr q))"

definition special :: "path \<Rightarrow> bool" where
  "special p = (p = [] \<or> last p = ''..'' \<or> last p = ''.'' \<or> last p = [])"

text \<open>\<open>os.mkdir\<close>.\<close>

definition os_mkdir :: "path \<Rightarrow> node \<Rightarrow> exn + node" where
  "os_mkdir p n =
     (case parent_dir n p of
        Inl e \<Rightarrow> Inl e
      | Inr q \<Rightarrow>
          if special p then Inl FileExistsError
          else (case node_at n (q @ [last p]) of
                  Some m \<Rightarrow> Inl FileExistsError
                | None \<Rightarrow> Inr (put (q @ [last p]) (Some (Dir [])) n)))"

text \<open>
  \<open>Path.mkdir(parents, exist_ok)\<close>: \<open>FileNotFoundError\<close> makes it create the lexical
  parent first (with \<open>exist_ok=True\<close>) and then try once more without \<open>parents\<close>; any
  other \<open>OSError\<close> is passed on unless \<open>exist_ok\<close> holds and the path is a directory.
  Parents made before a failure stay, so the file system is returned in both cases.
\<close>

definition mkdir_once :: "bool \<Rightarrow> path \<Rightarrow> node \<Rightarrow> node \<times> exn option" where
  "mkdir_once exist_ok p n =
     (case os_mkdir p n of
        Inr n' \<Rightarrow> (n', None)
      | Inl e \<Rightarrow>
          if e = FileNotFoundError then (n, Some e)
          else if \<not> exist_ok \<or> \<not> is_dir n p then (n, Some e)
          else (n, None))"

function mkdir_parents :: "bool \<Rightarrow> path \<Rightarrow> node \<Rightarrow> node \<times> exn option" where
  "mkdir_parents exist_ok p n =
     (case os_mkdir p n of
        Inr n' \<Rightarrow> (n', None)
      | Inl e \<Rightarrow>
          if e = FileNotFoundError then
            (if p = [] then (n, Some e)
             else (case mkdir_parents True (butlast p) n of
                     (n', Some e') \<Rightarrow> (n', Some e')
                   | (n', None) \<Rightarrow> mkdir_once exist_ok p n'))
          else if \<not> exist_ok \<or> \<not> is_dir n p then (n, Some e)
          else (n, None))"
  by pat_completeness auto
termination
  by (relation "measure (\<lambda>(e, p, n). length p)") auto

declare mkdir_parents.simps [simp del]

text \<open>\<open>Path.unlink\<close>.\<close>

definition unlink :: "path \<Rightarrow> node \<Rightarrow> exn + node" where
  "unlink p n =
     (case walk n [] p of
        Inl e \<Rightarrow> Inl e
      | Inr q \<Rightarrow>
          (case node_at n q of
             None \<Rightarrow> Inl FileNotFoundError
           | Some (Dir es) \<Rightarrow> Inl IsADirectoryError
           | Some (File d) \<Rightarrow> Inr (put q None n)))"

text \<open>
  \<open>Path.iterdir\<close>: the entries of a directory, each name with its node, so that
  \<open>child.is_dir()\<close> and \<open>child.is_file()\<close> are read off the node.
\<close>

definition iterdir :: "node \<Rightarrow> path \<Rightarrow> exn + (string \<times> node) list" where
  "iterdir n p =
     (case stat n p of
        Inl e \<Rightarrow> Inl e
      | Inr (File d) \<Rightarrow> Inl NotADirectoryError
      | Inr (Dir es) \<Rightarrow> Inr es)"

fun is_Dir :: "node \<Rightarrow> bool" where
  "is_Dir (Dir es) = True"
| "is_Dir (File d) = False"

fun is_File :: "node \<Rightarrow> bool" where
  "is_File (File d) = True"
| "is_File (Dir es) = False"

text \<open>\<open>open(p, "w")\<close> followed by one write of the whole content.\<close>

definition write_file :: "path \<Rightarrow> content \<Rightarrow> node \<Rightarrow> exn + node" where
  "write_file p d n =
     (case parent_dir n p of
        Inl e \<Rightarrow> Inl e
      | Inr q \<Rightarrow>
          if special p then Inl IsADirectoryError
          else (case node_at n (q @ [last p]) of
                  Some (Dir es) \<Rightarrow> Inl IsADirectoryError
                | _ \<Rightarrow> Inr (put (q @ [last p]) (Some (File d)) n)))"

text \<open>
  \<open>os.rename\<close> within one file system: a file replaces a file, a directory replaces an
  empty directory, nothing moves into its own subtree, and the root, \<open>.\<close> and \<open>..\<close>
  cannot be renamed.
\<close>

definition os_rename :: "path \<Rightarrow> path \<Rightarrow> node \<Rightarrow> exn + node" where
  "os_rename src dst n =
     (case walk n [] src of
        Inl e \<Rightarrow> Inl e
      | Inr sq \<Rightarrow>
     (case node_at n sq of
        None \<Rightarrow> Inl FileNotFoundError
      | Some s \<Rightarrow>
     (case parent_dir n dst of
        Inl e \<Rightarrow> Inl e
      | Inr dq \<Rightarrow>
          if special src \<or> special dst then Inl OSError
          else let dp = dq @ [last dst] in
            if sq = dp then Inr n
            else if prefix sq dp \<or> prefix dp sq then Inl OSError
            else (case (s, node_at n dp) of
                    (File d, Some (Dir es)) \<Rightarrow> Inl IsADirectoryError
                  | (Dir es, Some (File d)) \<Rightarrow> Inl NotADirectoryError
                  | (Dir es, Some (Dir es')) \<Rightarrow>
                      if es' = [] then Inr (put dp (Some s) (put sq None n)) else Inl OSError
                  | _ \<Rightarrow> Inr (put dp (Some s) (put sq None n))))))"

text \<open>
  \<open>shutil.move\<close>: a destination that is a directory receives the source under the
  source's own name (unless it is the source itself), and an entry of that name there
  is an error; otherwise the source is renamed. When \<open>os.rename\<close> fails, \<open>shutil.move\<close>
  copies and deletes instead; on one file system the copy fails where the rename did,
  and the exception of the rename stands for it, except that a directory moved into
  itself is reported as \<open>shutil.Error\<close>. (The copy of a directory would make missing
  parents of the destination; both callers make the parent before they move.)
\<close>

definition shutil_move :: "path \<Rightarrow> path \<Rightarrow> node \<Rightarrow> exn + node" where
  "shutil_move src dst n =
     (if is_dir n dst then
        (if walk n [] src = walk n [] dst then os_rename src dst n
         else let real_dst = dst @ [name_of src] in
           if exists n real_dst then Inl ShutilError
           else (case os_rename src real_dst n of
                   Inr n' \<Rightarrow> Inr n'
                 | Inl e \<Rightarrow> if is_dir n src \<and> e = OSError then Inl ShutilError else Inl e))
      else (case os_rename src dst n of
              Inr n' \<Rightarrow> Inr n'
            | Inl e \<Rightarrow> if is_dir n src \<and> e = OSError then Inl ShutilError else Inl e))"

text \<open>
  \<open>shutil.rmtree(p, ignore_errors=True)\<close>: removes a directory with all it holds; on
  anything else the error is ignored and nothing happens.
\<close>

definition rmtree :: "path \<Rightarrow> node \<Rightarrow> node" where
  "rmtree p n =
     (case walk n [] p of
        Inl e \<Rightarrow> n
      | Inr q \<Rightarrow> (case node_at n q of Some (Dir es) \<Rightarrow> put q None n | _ \<Rightarrow> n))"

section \<open>The application: layout and helpers\<close>

text \<open>
  \<open>proj\<close> is the directory that holds \<open>annotation-backend\<close> (where \<open>main.py\<close> lies) and
  \<open>annotation-frontend\<close>: it is \<open>BACKEND_DIR.parent\<close>, a resolved path.
\<close>

definition BACKEND_DIR :: "path \<Rightarrow> path" where
  "BACKEND_DIR proj = proj @ [''annotation-backend'']"

definition FRONTEND_DIR :: "path \<Rightarrow> path" where
  "FRONTEND_DIR proj = join proj ''annotation-frontend''"

definition UPLOADS_DIR :: "path \<Rightarrow> path" where
  "UPLOADS_DIR proj = join (BACKEND_DIR proj) ''uploads''"

definition ANNOTATIONS_DIR :: "path \<Rightarrow> path" where
  "ANNOTATIONS_DIR proj = join (BACKEND_DIR proj) ''annotations''"

definition PERSONS_DB :: "path \<Rightarrow> path" where
  "PERSONS_DB proj = join (BACKEND_DIR proj) ''persons''"

definition TEMP_ROOT :: "path \<Rightarrow> path" where
  "TEMP_ROOT proj = join (FRONTEND_DIR proj) ''temp''"

text \<open>
  A request body is a JSON object; \<open>payload.get(k)\<close> is \<open>None\<close> or a string. \<open>not v\<close> holds
  for \<open>None\<close> and for the empty string.
\<close>

type_synonym payload = "string \<rightharpoonup> string"

definition falsy :: "string option \<Rightarrow> bool" where
  "falsy v = (case v of None \<Rightarrow> True | Some s \<Rightarrow> s = [])"

text \<open>\<open>uuid.uuid4().hex\<close>: 32 lower-case hexadecimal digits with the version and variant set.\<close>

definition uuid4_hex :: "string \<Rightarrow> bool" where
  "uuid4_hex u =
     (length u = 32 \<and> set u \<subseteq> set ''0123456789abcdef'' \<and> u ! 12 = CHR ''4''
      \<and> u ! 16 \<in> set ''89ab'')"

text \<open>
  \<open>safe_temp_session_path\<close>: the resolved path of \<open>TEMP_ROOT / session_id\<close> if its text
  starts with the text of the resolved temporary root. Without symbolic links,
  \<open>Path.resolve\<close> (not strict) removes \<open>..\<close> lexically.
\<close>

definition str_path :: "path \<Rightarrow> string" where
  "str_path p = (if p = [] then ''/'' else concat (map (\<lambda>c. CHR ''/'' # c) p))"

definition resolve :: "path \<Rightarrow> path" where
  "resolve p = foldl step [] p"

definition safe_temp_session_path :: "path \<Rightarrow> string \<Rightarrow> exn + path" where
  "safe_temp_session_path proj session_id =
     (let path = resolve (join (TEMP_ROOT proj) session_id) in
      if \<not> startswith (str_path path) (str_path (resolve (TEMP_ROOT proj)))
      then Inl (HTTPException 400 ''Invalid session path'')
      else Inr path)"

section \<open>Listing a session\<close>

definition list_session_persons ::
    "path \<Rightarrow> node \<Rightarrow> string \<Rightarrow> exn + (string \<times> string list) list" where
  "list_session_persons proj fs session_id =
     (let session_folder = join (TEMP_ROOT proj) session_id in
      if \<not> exists fs session_folder then Inl (HTTPException 404 ''Session not found'')
      else (case iterdir fs session_folder of
              Inl e \<Rightarrow> Inl e
            | Inr es \<Rightarrow>
                Inr (foldl
                  (\<lambda>out (name, person_folder).
                     (case person_folder of
                        File d \<Rightarrow> out
                      | Dir fs' \<Rightarrow>
                          AList.update name
                            (map (\<lambda>(f, m). ''/temp/'' @ session_id @ ''/'' @ name @ ''/'' @ f)
                               (filter (\<lambda>(f, m). is_File m) (sort_key fst fs')))
                            out))
                  [] (sort_key fst es))))"

section \<open>Correction operations\<close>

text \<open>
  Every endpoint takes the file system and returns it with the outcome: \<open>Inl\<close> is the
  exception that leaves the handler (an \<open>HTTPException\<close> with its status and detail, or
  an uncaught one, which the framework answers with status 500), \<open>Inr\<close> the value of the
  JSON response.
\<close>

definition name_index :: "string \<Rightarrow> int option" where
  "name_index e = (case split CHR ''_'' e of a # b # r \<Rightarrow> py_int b | _ \<Rightarrow> None)"

definition next_person_index :: "string list \<Rightarrow> int" where
  "next_person_index existing =
     foldl (\<lambda>idx e. case name_index e of None \<Rightarrow> idx | Some n \<Rightarrow> max idx (n + 1)) 0 existing"

definition auto_person_name :: "node \<Rightarrow> path \<Rightarrow> exn + string" where
  "auto_person_name fs session_dir =
     (case iterdir fs session_dir of
        Inl e \<Rightarrow> Inl e
      | Inr es \<Rightarrow>
          let existing = filter (\<lambda>e. startswith e ''person_'')
                           (map fst (filter (\<lambda>(e, m). is_Dir m) es))
          in Inr (''person_'' @ str_int (next_person_index existing)))"

definition add_person :: "path \<Rightarrow> payload \<Rightarrow> node \<Rightarrow> node \<times> (exn + string)" where
  "add_person proj payload fs =
     (if falsy (payload ''session_id'') then (fs, Inl (HTTPException 400 ''session_id required''))
      else case payload ''session_id'' of
        None \<Rightarrow> (fs, Inl (HTTPException 400 ''session_id required''))
      | Some session_id \<Rightarrow>
          let session_dir = join (TEMP_ROOT proj) session_id in
          if \<not> exists fs session_dir then (fs, Inl (HTTPException 404 ''Session not found''))
          else
            (case (case payload ''name'' of
                     None \<Rightarrow> auto_person_name fs session_dir
                   | Some name \<Rightarrow>
                       if name \<noteq> [] then Inr (replace_space (strip name))
                       else auto_person_name fs session_dir)
             of
               Inl e \<Rightarrow> (fs, Inl e)
             | Inr new_name \<Rightarrow>
                 let new_folder = join session_dir new_name in
                 if exists fs new_folder then (fs, Inl (HTTPException 400 ''Person folder exists''))
                 else (case mkdir_parents False new_folder fs of
                         (fs', Some e) \<Rightarrow> (fs', Inl e)
                       | (fs', None) \<Rightarrow> (fs', Inr new_name))))"

definition move_image :: "path \<Rightarrow> string \<Rightarrow> payload \<Rightarrow> node \<Rightarrow> node \<times> (exn + string)" where
  "move_image proj uuid payload fs =
     (case (payload ''src'', payload ''dest_person'') of
        (Some src, Some dest_person) \<Rightarrow>
          if src = [] \<or> dest_person = []
          then (fs, Inl (HTTPException 400 ''src and dest_person required''))
          else if \<not> startswith src ''/temp/''
          then (fs, Inl (HTTPException 400 ''Only /temp/ paths supported''))
          else let parts = split CHR ''/'' src in
            if length parts < 5 then (fs, Inl (HTTPException 400 ''Invalid src path''))
            else
              let session_id = parts ! 2;
                  filename = last parts;
                  src_fs = join (join (join (TEMP_ROOT proj) session_id) (parts ! 3)) filename
              in
              if \<not> exists fs src_fs then (fs, Inl (HTTPException 404 ''Source file not found''))
              else
                let dest_folder_fs = join (join (TEMP_ROOT proj) session_id) dest_person in
                (case mkdir_parents True dest_folder_fs fs of
                   (fs1, Some e) \<Rightarrow> (fs1, Inl e)
                 | (fs1, None) \<Rightarrow>
                     let dest_fs =
                           (if exists fs1 (join dest_folder_fs filename)
                            then (case splitext filename of
                                    (base, ext) \<Rightarrow>
                                      join dest_folder_fs (base @ ''_'' @ take 6 uuid @ ext))
                            else join dest_folder_fs filename)
                     in
                     (case shutil_move src_fs dest_fs fs1 of
                        Inl e \<Rightarrow> (fs1, Inl e)
                      | Inr fs2 \<Rightarrow>
                          (fs2, Inr (''/temp/'' @ session_id @ ''/'' @ dest_person @ ''/''
                                       @ name_of dest_fs))))
      | _ \<Rightarrow> (fs, Inl (HTTPException 400 ''src and dest_person required'')))"

definition delete_image :: "path \<Rightarrow> payload \<Rightarrow> node \<Rightarrow> node \<times> (exn + string)" where
  "delete_image proj payload fs =
     (case payload ''path'' of
        None \<Rightarrow> (fs, Inl (HTTPException 400 ''Invalid path''))
      | Some path \<Rightarrow>
          if path = [] \<or> \<not> startswith path ''/temp/''
          then (fs, Inl (HTTPException 400 ''Invalid path''))
          else let parts = split CHR ''/'' path in
            if length parts < 5 then (fs, Inl (HTTPException 400 ''Invalid path''))
            else
              let session_id = parts ! 2;
                  filename = last parts;
                  fs_path = join (join (join (TEMP_ROOT proj) session_id) (parts ! 3)) filename
              in
              if \<not> exists fs fs_path then (fs, Inl (HTTPException 404 ''File not found''))
              else (case unlink fs_path fs of
                      Inl e \<Rightarrow> (fs, Inl e)
                    | Inr fs' \<Rightarrow> (fs', Inr path)))"

definition rename_person ::
    "path \<Rightarrow> payload \<Rightarrow> node \<Rightarrow> node \<times> (exn + string \<times> string)" where
  "rename_person proj payload fs =
     (case (payload ''session_id'', payload ''old_name'', payload ''new_name'') of
        (Some session_id, Some old_name, Some new_name) \<Rightarrow>
          if session_id = [] \<or> old_name = [] \<or> new_name = []
          then (fs, Inl (HTTPException 400 ''Missing parameters''))
          else
            let session_dir = join (TEMP_ROOT proj) session_id;
                old_fs = join session_dir old_name;
                new_fs = join session_dir new_name
            in
            if \<not> exists fs old_fs then (fs, Inl (HTTPException 404 ''Old person not found''))
            else if exists fs new_fs then (fs, Inl (HTTPException 400 ''Target name exists''))
            else (case os_rename old_fs new_fs fs of
                    Inl e \<Rightarrow> (fs, Inl e)
                  | Inr fs' \<Rightarrow> (fs', Inr (old_name, new_name)))
      | _ \<Rightarrow> (fs, Inl (HTTPException 400 ''Missing parameters'')))"

section \<open>Promotion\<close>

definition next_database_index :: "string list \<Rightarrow> int" where
  "next_database_index existing =
     foldl (\<lambda>n d. if startswith d ''database_''
                   then (case name_index d of None \<Rightarrow> n | Some m \<Rightarrow> max n (m + 1))
                   else n) 1 existing"

definition confirm_session :: "path \<Rightarrow> payload \<Rightarrow> node \<Rightarrow> node \<times> (exn + string)" where
  "confirm_session proj payload fs =
     (case payload ''session_id'' of
        None \<Rightarrow> (fs, Inl (HTTPException 400 ''session_id required''))
      | Some session_id \<Rightarrow>
          if session_id = [] then (fs, Inl (HTTPException 400 ''session_id required''))
          else let src = join (TEMP_ROOT proj) session_id in
            if \<not> exists fs src then (fs, Inl (HTTPException 404 ''Session not found''))
            else (case mkdir_parents True (PERSONS_DB proj) fs of
                    (fs1, Some e) \<Rightarrow> (fs1, Inl e)
                  | (fs1, None) \<Rightarrow>
                      (case iterdir fs1 (PERSONS_DB proj) of
                         Inl e \<Rightarrow> (fs1, Inl e)
                       | Inr es \<Rightarrow>
                           let existing = map fst (filter (\<lambda>(d, m). is_Dir m) es);
                               n = next_database_index existing;
                               dest = join (PERSONS_DB proj) (''database_'' @ str_int n)
                           in (case shutil_move src dest fs1 of
                                 Inl e \<Rightarrow> (fs1, Inl e)
                               | Inr fs2 \<Rightarrow> (fs2, Inr (''/persons/'' @ name_of dest))))))"

section \<open>Ingestion\<close>

text \<open>
  The detector and the video decoder are outside this program; what they deliver is a
  parameter. A frame has a height, a width and pixels. A box is \<open>(x1, y1, x2, y2)\<close>; \<open>None\<close>
  stands for a detection whose conversion raises (or, without tracking, one of another
  class), which the code skips.
\<close>

datatype frame = Frame int int string

type_synonym box = "int \<times> int \<times> int \<times> int"

text \<open>
  One result of \<open>model.track\<close>, as the loop reads it: \<open>orig_img\<close>, then \<open>boxes\<close> with its
  \<open>id\<close> and \<open>xyxy\<close>. \<open>IdsRaise\<close> is an \<open>id\<close> that neither conversion accepts.
\<close>

datatype ids = IdsNone | IdsRaise | Ids "int list"

datatype track_boxes = TrackBoxes ids "box option list option"

datatype track_result = TrackResult "frame option" "track_boxes option"

text \<open>
  \<open>model.track\<close> raises at once, or yields results and then ends or raises. Without
  tracking, \<open>model(frame)\<close> raises or returns detections for each decoded frame.
\<close>

datatype track_run = TrackRaises string | TrackStream "track_result list" "string option"

datatype detect_outcome = DetectRaises string | Detect "box option list"

datatype adapter = Tracking track_run | Detecting "(frame \<times> detect_outcome) list"

definition MIN_BOX_AREA :: int where
  "MIN_BOX_AREA = 25 * 25"

definition clamp_box :: "int \<Rightarrow> int \<Rightarrow> box \<Rightarrow> box" where
  "clamp_box h w b =
     (case b of (x1, y1, x2, y2) \<Rightarrow>
        (max 0 (min x1 (w - 1)), max 0 (min y1 (h - 1)),
         max 0 (min x2 (w - 1)), max 0 (min y2 (h - 1))))"

definition keep_box :: "box \<Rightarrow> bool" where
  "keep_box b =
     (case b of (x1, y1, x2, y2) \<Rightarrow>
        \<not> (x2 \<le> x1 \<or> y2 \<le> y1) \<and> \<not> ((x2 - x1) * (y2 - y1) < MIN_BOX_AREA))"

text \<open>
  The state of the pipeline: the file system, \<open>person_map\<close> (a dict, in insertion
  order) and the list of the paths that were opened for writing, in order.
\<close>

type_synonym person_map = "(string \<times> string list) list"

type_synonym pstate = "node \<times> person_map \<times> path list"

text \<open>\<open>person_map.setdefault(k, []).append(v)\<close>.\<close>

definition setdefault_append :: "string \<Rightarrow> string \<Rightarrow> person_map \<Rightarrow> person_map" where
  "setdefault_append k v m =
     AList.update k ((case map_of m k of None \<Rightarrow> [] | Some l \<Rightarrow> l) @ [v]) m"

text \<open>\<open>cv2.imwrite\<close> returns \<open>False\<close> where it cannot write; the code does not look.\<close>

definition imwrite :: "path \<Rightarrow> content \<Rightarrow> node \<Rightarrow> node" where
  "imwrite p d n = (case write_file p d n of Inl e \<Rightarrow> n | Inr n' \<Rightarrow> n')"

definition save_crop_and_map ::
    "path \<Rightarrow> string \<Rightarrow> string \<Rightarrow> content \<Rightarrow> string \<Rightarrow> pstate \<Rightarrow> pstate \<times> exn option" where
  "save_crop_and_map session_temp session_id person_key crop_img fname st =
     (case st of (fs, pm, log) \<Rightarrow>
        let folder = join session_temp person_key in
        (case mkdir_parents True folder fs of
           (fs1, Some e) \<Rightarrow> ((fs1, pm, log), Some e)
         | (fs1, None) \<Rightarrow>
             let dst = join folder fname;
                 web = ''/temp/'' @ session_id @ ''/'' @ person_key @ ''/'' @ fname
             in ((imwrite dst crop_img fs1, setdefault_append person_key web pm, log @ [dst]),
                 None)))"

text \<open>
  The detections of one tracked frame. A missing or malformed box and a box that the
  filters reject are skipped; an exception of \<open>save_crop_and_map\<close> ends the frame (the
  frame-level handler swallows it).
\<close>

fun track_detections ::
    "path \<Rightarrow> string \<Rightarrow> frame \<Rightarrow> nat \<Rightarrow> box option list \<Rightarrow> nat \<Rightarrow> int list \<Rightarrow> pstate \<Rightarrow> pstate"
where
  "track_detections session_temp session_id fr frame_idx xyxy i [] st = st"
| "track_detections session_temp session_id fr frame_idx xyxy i (tid # tids) st =
     (case (if i < length xyxy then xyxy ! i else None) of
        None \<Rightarrow> track_detections session_temp session_id fr frame_idx xyxy (i + 1) tids st
      | Some b \<Rightarrow>
          (case fr of Frame h w px \<Rightarrow>
             (case clamp_box h w b of (x1, y1, x2, y2) \<Rightarrow>
                if \<not> keep_box (x1, y1, x2, y2)
                then track_detections session_temp session_id fr frame_idx xyxy (i + 1) tids st
                else
                  (case save_crop_and_map session_temp session_id
                          (''person_'' @ str_int tid) (Crop px x1 y1 x2 y2)
                          (''f'' @ str_nat frame_idx @ ''_id'' @ str_int tid @ ''.jpg'') st
                   of
                     (st', Some e) \<Rightarrow> st'
                   | (st', None) \<Rightarrow>
                       track_detections session_temp session_id fr frame_idx xyxy (i + 1)
                         tids st'))))"

definition track_frame :: "path \<Rightarrow> string \<Rightarrow> nat \<Rightarrow> track_result \<Rightarrow> pstate \<Rightarrow> pstate" where
  "track_frame session_temp session_id frame_idx result st =
     (case result of
        TrackResult None boxes \<Rightarrow> st
      | TrackResult (Some fr) None \<Rightarrow> st
      | TrackResult (Some fr) (Some (TrackBoxes IdsRaise xyxy)) \<Rightarrow> st
      | TrackResult (Some fr) (Some (TrackBoxes ids None)) \<Rightarrow> st
      | TrackResult (Some fr) (Some (TrackBoxes IdsNone (Some xyxy))) \<Rightarrow> st
      | TrackResult (Some fr) (Some (TrackBoxes (Ids ids_list) (Some xyxy))) \<Rightarrow>
          track_detections session_temp session_id fr frame_idx xyxy 0 ids_list st)"

fun track_loop :: "path \<Rightarrow> string \<Rightarrow> nat \<Rightarrow> track_result list \<Rightarrow> pstate \<Rightarrow> pstate" where
  "track_loop session_temp session_id frame_idx [] st = st"
| "track_loop session_temp session_id frame_idx (result # stream) st =
     track_loop session_temp session_id (frame_idx + 1) stream
       (track_frame session_temp session_id frame_idx result st)"

text \<open>
  Without tracking every kept detection opens a new group; here an exception of
  \<open>save_crop_and_map\<close> or of the detector is not caught inside the loop.
\<close>

fun detect_boxes ::
    "path \<Rightarrow> string \<Rightarrow> frame \<Rightarrow> nat \<Rightarrow> box option list \<Rightarrow> nat \<Rightarrow> pstate
      \<Rightarrow> (pstate \<times> nat) \<times> exn option"
where
  "detect_boxes session_temp session_id fr frame_idx [] next_pid st = ((st, next_pid), None)"
| "detect_boxes session_temp session_id fr frame_idx (r # boxes) next_pid st =
     (case r of
        None \<Rightarrow> detect_boxes session_temp session_id fr frame_idx boxes next_pid st
      | Some b \<Rightarrow>
          (case fr of Frame h w px \<Rightarrow>
             (case clamp_box h w b of (x1, y1, x2, y2) \<Rightarrow>
                if \<not> keep_box (x1, y1, x2, y2)
                then detect_boxes session_temp session_id fr frame_idx boxes next_pid st
                else
                  (case save_crop_and_map session_temp session_id
                          (''person_'' @ str_nat next_pid) (Crop px x1 y1 x2 y2)
                          (''f'' @ str_nat frame_idx @ ''_p'' @ str_nat next_pid @ ''.jpg'') st
                   of
                     (st', Some e) \<Rightarrow> ((st', next_pid), Some e)
                   | (st', None) \<Rightarrow>
                       detect_boxes session_temp session_id fr frame_idx boxes
                         (next_pid + 1) st'))))"

fun detect_loop ::
    "path \<Rightarrow> string \<Rightarrow> nat \<Rightarrow> nat \<Rightarrow> (frame \<times> detect_outcome) list \<Rightarrow> pstate
      \<Rightarrow> pstate \<times> exn option"
where
  "detect_loop session_temp session_id frame_idx next_pid [] st = (st, None)"
| "detect_loop session_temp session_id frame_idx next_pid ((fr, outcome) # frames) st =
     (case st of (fs, pm, log) \<Rightarrow>
        let tmp_frame_path = join session_temp (''frame_'' @ str_nat frame_idx @ ''.jpg'');
            st1 = (imwrite tmp_frame_path (case fr of Frame h w px \<Rightarrow> Bytes px) fs, pm,
                   log @ [tmp_frame_path])
        in
        (case outcome of
           DetectRaises msg \<Rightarrow> (st1, Some (RuntimeError msg))
         | Detect boxes \<Rightarrow>
             (case detect_boxes session_temp session_id fr frame_idx boxes next_pid st1 of
                ((st2, next_pid'), Some e) \<Rightarrow> (st2, Some e)
              | ((st2, next_pid'), None) \<Rightarrow>
                  detect_loop session_temp session_id (frame_idx + 1) next_pid' frames st2)))"

text \<open>\<open>json.dump\<close> of the map, and of the summary.\<close>

definition json_persons :: "person_map \<Rightarrow> json" where
  "json_persons pm = JObj (map (\<lambda>(k, v). (k, JList (map JStr v))) pm)"

definition json_summary :: "string \<Rightarrow> person_map \<Rightarrow> json" where
  "json_summary session_id pm = JObj [(''session_id'', JStr session_id), (''persons'', json_persons pm)]"

text \<open>\<open>str(e)\<close> in the detail of the failure; the text of an operating-system error is cut
  down to its class.\<close>

fun str_exn :: "exn \<Rightarrow> string" where
  "str_exn (RuntimeError msg) = msg"
| "str_exn (HTTPException c d) = d"
| "str_exn FileNotFoundError = ''FileNotFoundError''"
| "str_exn FileExistsError = ''FileExistsError''"
| "str_exn NotADirectoryError = ''NotADirectoryError''"
| "str_exn IsADirectoryError = ''IsADirectoryError''"
| "str_exn OSError = ''OSError''"
| "str_exn ShutilError = ''shutil.Error''"

text \<open>The body of the \<open>try\<close>: the loop of the mode in use, then the two JSON files.\<close>

definition process_video ::
    "path \<Rightarrow> string \<Rightarrow> adapter \<Rightarrow> pstate \<Rightarrow> pstate \<times> exn option" where
  "process_video proj session_id model st =
     (let session_temp = join (TEMP_ROOT proj) session_id in
      case (case model of
              Tracking (TrackRaises msg) \<Rightarrow> (st, Some (RuntimeError msg))
            | Tracking (TrackStream stream fin) \<Rightarrow>
                (track_loop session_temp session_id 0 stream st, map_option RuntimeError fin)
            | Detecting frames \<Rightarrow> detect_loop session_temp session_id 0 0 frames st)
      of
        (st1, Some e) \<Rightarrow> (st1, Some e)
      | ((fs1, pm, log1), None) \<Rightarrow>
          let ann_file = join session_temp ''annotation.json'' in
          (case write_file ann_file (Json (json_persons pm)) fs1 of
             Inl e \<Rightarrow> ((fs1, pm, log1 @ [ann_file]), Some e)
           | Inr fs2 \<Rightarrow>
               let summary_path = join (ANNOTATIONS_DIR proj) (session_id @ ''_summary.json'') in
               (case write_file summary_path (Json (json_summary session_id pm)) fs2 of
                  Inl e \<Rightarrow> ((fs2, pm, log1 @ [ann_file, summary_path]), Some e)
                | Inr fs3 \<Rightarrow> ((fs3, pm, log1 @ [ann_file, summary_path]), None))))"

text \<open>
  \<open>upload_video\<close>: \<open>session_id\<close> is the value of \<open>uuid.uuid4().hex\<close>, \<open>video\<close> the uploaded
  bytes, \<open>model\<close> the detector (\<open>None\<close> when it is not available). The result carries the
  file system, the paths opened for writing, and the outcome.
\<close>

definition upload_video ::
    "path \<Rightarrow> string \<Rightarrow> string \<Rightarrow> adapter option \<Rightarrow> node
      \<Rightarrow> node \<times> path list \<times> (exn + string \<times> person_map)" where
  "upload_video proj session_id video model fs =
     (let upload_path = join (UPLOADS_DIR proj) (session_id @ ''.mp4'') in
      case write_file upload_path (Bytes video) fs of
        Inl e \<Rightarrow> (fs, [upload_path], Inl e)
      | Inr fs0 \<Rightarrow>
          let session_temp = join (TEMP_ROOT proj) session_id in
          (case mkdir_parents True session_temp fs0 of
             (fs1, Some e) \<Rightarrow> (fs1, [upload_path], Inl e)
           | (fs1, None) \<Rightarrow>
               (case model of
                  None \<Rightarrow> (fs1, [upload_path], Inr (session_id, []))
                | Some m \<Rightarrow>
                    (case process_video proj session_id m (fs1, [], [upload_path]) of
                       ((fs2, pm, log), None) \<Rightarrow> (fs2, log, Inr (session_id, pm))
                     | ((fs2, pm, log), Some e) \<Rightarrow>
                         (if exists fs2 session_temp then rmtree session_temp fs2 else fs2,
                          log,
                          Inl (HTTPException 500 (''Processing failed: '' @ str_exn e)))))))"

section \<open>Names for the statements, and an example installation\<close>

text \<open>
  The file that a URI names for \<open>move_image\<close> and \<open>delete_image\<close>: both handlers compute
  this path from the third, the fourth and the last part of the URI.
\<close>

definition uri_path :: "path \<Rightarrow> string \<Rightarrow> path" where
  "uri_path proj uri =
     (let parts = split CHR ''/'' uri
      in join (join (join (TEMP_ROOT proj) (parts ! 2)) (parts ! 3)) (last parts))"

text \<open>
  An installation under \<open>/srv\<close> with one session. Its second group holds a crop and a crop
  whose name carries the suffix \<open>000000\<close>.
\<close>

definition ex_proj :: path where
  "ex_proj = [''srv'']"

definition ex_sid :: string where
  "ex_sid = ''0123456789ab4def8123456789abcdef''"

definition ex_uuid :: string where
  "ex_uuid = ''00000000000040008000000000000000''"

definition ex_snapshot :: content where
  "ex_snapshot = Json (JObj [(''person_1'', JList [JStr (''/temp/'' @ ex_sid @ ''/person_1/f0_id1.jpg'')]),
                             (''person_2'', JList [JStr (''/temp/'' @ ex_sid @ ''/person_2/f0_id1.jpg''),
                                                   JStr (''/temp/'' @ ex_sid @ ''/person_2/f0_id1_000000.jpg'')])])"

definition ex_session :: node where
  "ex_session =
     Dir [(''annotation.json'', File ex_snapshot),
          (''person_1'', Dir [(''f0_id1.jpg'', File (Crop ''a'' 0 0 30 30))]),
          (''person_2'', Dir [(''f0_id1.jpg'', File (Crop ''b'' 0 0 30 30)),
                              (''f0_id1_000000.jpg'', File (Crop ''c'' 0 0 30 30))])]"

definition ex_fs :: node where
  "ex_fs =
     Dir [(''srv'', Dir [
       (''annotation-backend'',
          Dir [(''uploads'', Dir []), (''annotations'', Dir []), (''persons'', Dir [])]),
       (''annotation-frontend'',
          Dir [(''temp'', Dir [(ex_sid, ex_session)]),
               (''static'', Dir [(''app.js'', File (Bytes ''js''))]),
               (''templates'', Dir [])])])]"







text \<open>``Whitespace replaced by underscores'', as the specification words the cleaning of
  an explicit group name.\<close>

definition whitespace_to_underscore :: "string \<Rightarrow> string" where
  "whitespace_to_underscore s = map (\<lambda>c. if isspace c then CHR ''_'' else c) s"



text \<open>
  A correction request, with the UUID that \<open>move_image\<close> draws; applying one, and a
  sequence of them, to the file system.
\<close>

datatype correction =
    AddPerson payload
  | MoveImage string payload
  | DeleteImage payload
  | RenamePerson payload

fun apply_correction :: "path \<Rightarrow> node \<Rightarrow> correction \<Rightarrow> node" where
  "apply_correction proj fs (AddPerson payload) = fst (add_person proj payload fs)"
| "apply_correction proj fs (MoveImage uuid payload) = fst (move_image proj uuid payload fs)"
| "apply_correction proj fs (DeleteImage payload) = fst (delete_image proj payload fs)"
| "apply_correction proj fs (RenamePerson payload) = fst (rename_person proj payload fs)"

definition run_corrections :: "path \<Rightarrow> correction list \<Rightarrow> node \<Rightarrow> node" where
  "run_corrections proj cs fs = foldl (apply_correction proj) fs cs"

text \<open>
  A request addresses by plain names when the session, the group and the file that its
  fields name are single plain components (a URI too short for the handler is let
  through: the handler refuses it), and when it does not rename the name
  \<open>annotation.json\<close>. Creating a group is not restricted.
\<close>

definition plain_uri :: "string \<Rightarrow> bool" where
  "plain_uri uri =
     (let parts = split CHR ''/'' uri
      in length parts < 5
         \<or> plain_name (parts ! 2) \<and> plain_name (parts ! 3) \<and> plain_name (last parts))"

fun addresses_plain :: "correction \<Rightarrow> bool" where
  "addresses_plain (AddPerson payload) = True"
| "addresses_plain (MoveImage uuid payload) =
     (uuid4_hex uuid \<and>
      (case (payload ''src'', payload ''dest_person'') of
         (Some src, Some dest_person) \<Rightarrow> plain_uri src \<and> plain_name dest_person
       | _ \<Rightarrow> True))"
| "addresses_plain (DeleteImage payload) =
     (case payload ''path'' of Some path \<Rightarrow> plain_uri path | None \<Rightarrow> True)"
| "addresses_plain (RenamePerson payload) =
     (case (payload ''session_id'', payload ''old_name'', payload ''new_name'') of
        (Some session_id, Some old_name, Some new_name) \<Rightarrow>
          plain_name session_id \<and> plain_name old_name \<and> plain_name new_name
          \<and> old_name \<noteq> ''annotation.json''
      | _ \<Rightarrow> True)"

text \<open>
  A directory holds at most one entry of a name. The entries of a directory are a list
  here, so this is said of a file system where it is needed; every operation keeps it.
\<close>

fun distinct_names :: "node \<Rightarrow> bool" where
  "distinct_names (File d) = True"
| "distinct_names (Dir es) = (distinct (map fst es) \<and> (\<forall>(c, m) \<in> set es. distinct_names m))"

text \<open>
  What the listing of a session shows: a group, when its name is a key of the listing,
  and an image, when its URI stands under one of the keys. A listing that fails shows
  nothing.
\<close>

definition listed_group :: "path \<Rightarrow> node \<Rightarrow> string \<Rightarrow> string \<Rightarrow> bool" where
  "listed_group proj fs s g =
     (case list_session_persons proj fs s of Inl e \<Rightarrow> False | Inr out \<Rightarrow> g \<in> set (map fst out))"

definition listed_image :: "path \<Rightarrow> node \<Rightarrow> string \<Rightarrow> string \<Rightarrow> bool" where
  "listed_image proj fs s u =
     (case list_session_persons proj fs s of
        Inl e \<Rightarrow> False
      | Inr out \<Rightarrow> u \<in> set (concat (map snd out)))"

text \<open>The URI of the image \<open>f\<close> in the group \<open>g\<close> of the session \<open>s\<close>.\<close>

definition image_uri :: "string \<Rightarrow> string \<Rightarrow> string \<Rightarrow> string" where
  "image_uri s g f = ''/temp/'' @ s @ ''/'' @ g @ ''/'' @ f"

text \<open>
  How the listing shows a correction that has succeeded; \<open>fs\<close> is the file system before
  the correction and \<open>fs'\<close> the one after it. A created group was not listed and is
  listed (this is looked at when the session and the new name are plain names). A
  deleted image was listed and is not listed any more. A renamed group, if it was
  listed, is listed under its new name, which was not listed before, and not under its
  old name any more. A moved image, if it was listed, is not listed at its source any
  more, and it is listed at the URI of the answer unless that URI named a directory
  before the move (\<open>shutil.move\<close> then puts the file into that directory). Nothing is
  said of a correction that fails.
\<close>

fun shown :: "path \<Rightarrow> correction \<Rightarrow> node \<Rightarrow> node \<Rightarrow> bool" where
  "shown proj (AddPerson payload) fs fs' =
     (case (payload ''session_id'', snd (add_person proj payload fs)) of
        (Some s, Inr g) \<Rightarrow>
          plain_name s \<and> plain_name g \<longrightarrow>
            \<not> listed_group proj fs s g \<and> listed_group proj fs' s g
      | _ \<Rightarrow> True)"
| "shown proj (MoveImage uuid payload) fs fs' =
     (case (payload ''src'', snd (move_image proj uuid payload fs)) of
        (Some src, Inr new_web) \<Rightarrow>
          let parts = split CHR ''/'' src;
              s = parts ! 2;
              u = image_uri s (parts ! 3) (last parts)
          in listed_image proj fs s u \<longrightarrow>
               \<not> listed_image proj fs' s u
               \<and> (\<not> is_dir fs (uri_path proj new_web) \<longrightarrow> listed_image proj fs' s new_web)
      | _ \<Rightarrow> True)"
| "shown proj (DeleteImage payload) fs fs' =
     (case (payload ''path'', snd (delete_image proj payload fs)) of
        (Some uri, Inr a) \<Rightarrow>
          let parts = split CHR ''/'' uri;
              s = parts ! 2;
              u = image_uri s (parts ! 3) (last parts)
          in listed_image proj fs s u \<and> \<not> listed_image proj fs' s u
      | _ \<Rightarrow> True)"
| "shown proj (RenamePerson payload) fs fs' =
     (case (payload ''session_id'', payload ''old_name'', payload ''new_name'',
            snd (rename_person proj payload fs)) of
        (Some s, Some old, Some new, Inr a) \<Rightarrow>
          listed_group proj fs s old \<longrightarrow>
            \<not> listed_group proj fs s new
            \<and> \<not> listed_group proj fs' s old \<and> listed_group proj fs' s new
      | _ \<Rightarrow> True)"

text \<open>Four corrections on the example session: a move, a deletion, a renaming, a new group.\<close>

definition ex_move :: correction where
  "ex_move = MoveImage ex_uuid [''src'' \<mapsto> ''/temp/'' @ ex_sid @ ''/person_1/f0_id1.jpg'',
                                ''dest_person'' \<mapsto> ''person_3'']"

definition ex_delete :: correction where
  "ex_delete = DeleteImage [''path'' \<mapsto> ''/temp/'' @ ex_sid @ ''/person_2/f0_id1_000000.jpg'']"

definition ex_rename :: correction where
  "ex_rename = RenamePerson [''session_id'' \<mapsto> ex_sid, ''old_name'' \<mapsto> ''person_2'',
                             ''new_name'' \<mapsto> ''alice'']"

definition ex_add :: correction where
  "ex_add = AddPerson [''session_id'' \<mapsto> ex_sid]"

text \<open>Every directory of the first file system is a directory of the second.\<close>

definition keeps_dirs :: "node \<Rightarrow> node \<Rightarrow> bool" where
  "keeps_dirs n n' =
     (\<forall>x es. node_at n x = Some (Dir es) \<longrightarrow> (\<exists>es'. node_at n' x = Some (Dir es')))"

text \<open>
  One stretch of the pipeline, from one state to a later one: directories stay, and the
  path \<open>ann\<close> is not among the paths opened for writing unless it was before.
\<close>

definition grows :: "path \<Rightarrow> pstate \<Rightarrow> pstate \<Rightarrow> bool" where
  "grows ann s s' =
     (keeps_dirs (fst s) (fst s') \<and> (ann \<in> set (snd (snd s')) \<longrightarrow> ann \<in> set (snd (snd s))))"

text \<open>
  A tracked video of two frames with one person, after which the tracker raises; and the
  same video tracked to its end.
\<close>

definition ex_frames :: "track_result list" where
  "ex_frames =
     [TrackResult (Some (Frame 100 100 ''p0''))
        (Some (TrackBoxes (Ids [1]) (Some [Some (10, 10, 60, 60)]))),
      TrackResult (Some (Frame 100 100 ''p1''))
        (Some (TrackBoxes (Ids [1]) (Some [Some (12, 10, 62, 60)])))]"

definition ex_failing_model :: adapter where
  "ex_failing_model = Tracking (TrackStream ex_frames (Some ''tracker lost''))"

definition ex_model :: adapter where
  "ex_model = Tracking (TrackStream ex_frames None)"

section \<open>Properties\<close>

subsection \<open>Strings, paths and plain names\<close>

lemma split_no_sep: "sep \<notin> set s \<Longrightarrow> split sep s = [s]"
  by (induction s) auto

lemma split_nonempty: "split sep s \<noteq> []"
  by (induction s) (auto split: list.splits)

lemma plain_not_abs: "plain_name s \<Longrightarrow> \<not> startswith s ''/''"
  by (cases s) (auto simp: plain_name_def startswith_def)

lemma parse_parts_plain: "plain_name s \<Longrightarrow> parse_parts s = [s]"
  by (simp add: parse_parts_def plain_name_def split_no_sep)

lemma join_plain: "plain_name s \<Longrightarrow> join p s = p @ [s]"
  by (simp add: join_def plain_not_abs parse_parts_plain)

lemma TEMP_ROOT_eq: "TEMP_ROOT proj = proj @ [''annotation-frontend'', ''temp'']"
  by (simp add: TEMP_ROOT_def FRONTEND_DIR_def join_def startswith_def parse_parts_def)

lemma PERSONS_DB_eq: "PERSONS_DB proj = proj @ [''annotation-backend'', ''persons'']"
  by (simp add: PERSONS_DB_def BACKEND_DIR_def join_def startswith_def parse_parts_def)

lemma UPLOADS_DIR_eq: "UPLOADS_DIR proj = proj @ [''annotation-backend'', ''uploads'']"
  by (simp add: UPLOADS_DIR_def BACKEND_DIR_def join_def startswith_def parse_parts_def)

lemma ANNOTATIONS_DIR_eq: "ANNOTATIONS_DIR proj = proj @ [''annotation-backend'', ''annotations'']"
  by (simp add: ANNOTATIONS_DIR_def BACKEND_DIR_def join_def startswith_def parse_parts_def)

lemma node_at_append:
  "node_at n (p @ q) = (case node_at n p of None \<Rightarrow> None | Some m \<Rightarrow> node_at m q)"
  by (induction n p rule: node_at.induct) (auto split: option.splits)

lemma node_at_prefix_Some:
  "node_at n q = Some m \<Longrightarrow> prefix p q \<Longrightarrow> \<exists>m'. node_at n p = Some m'"
  by (auto simp: prefix_def node_at_append split: option.splits)

lemma node_at_child_Dir:
  "node_at n (p @ c # cs) = Some m \<Longrightarrow> \<exists>es. node_at n p = Some (Dir es)"
  apply (auto simp: node_at_append split: option.splits)
  subgoal for x by (cases x) auto
  done

lemma step_plain: "plain_name c \<Longrightarrow> step cur c = cur @ [c]"
  by (auto simp: step_def plain_name_def)

lemma walk_plain:
  "plain_path p \<Longrightarrow> walk n cur p = Inr q \<Longrightarrow> q = cur @ p"
proof (induction p arbitrary: cur)
  case Nil
  then show ?case by simp
next
  case (Cons c cs)
  from Cons.prems(1) have pc: "plain_name c" and pcs: "plain_path cs"
    by (simp_all add: plain_path_def)
  from Cons.prems(2) have "walk n (cur @ [c]) cs = Inr q"
    using pc by (auto simp: step_plain split: option.splits node.splits)
  from Cons.IH [OF pcs this] show ?case by simp
qed

lemma walk_existing:
  "plain_path p \<Longrightarrow> node_at n (cur @ p) = Some m \<Longrightarrow> walk n cur p = Inr (cur @ p)"
proof (induction p arbitrary: cur)
  case Nil
  then show ?case by simp
next
  case (Cons c cs)
  from Cons.prems(2) obtain es where d: "node_at n cur = Some (Dir es)"
    using node_at_child_Dir by blast
  from Cons.prems(1) have pc: "plain_name c" and pcs: "plain_path cs"
    by (simp_all add: plain_path_def)
  have "walk n (cur @ [c]) cs = Inr ((cur @ [c]) @ cs)"
    using Cons.IH [OF pcs, of "cur @ [c]"] Cons.prems(2) by simp
  then show ?case using d pc by (simp add: step_plain)
qed

lemma stat_plain:
  assumes "plain_path p"
  shows "stat n p = Inr m \<longleftrightarrow> node_at n p = Some m"
proof
  assume "stat n p = Inr m"
  then obtain q where w: "walk n [] p = Inr q" and a: "node_at n q = Some m"
    by (auto simp: stat_def split: sum.splits option.splits)
  from walk_plain [OF assms w] a show "node_at n p = Some m" by simp
next
  assume a: "node_at n p = Some m"
  then have "walk n [] p = Inr p" using walk_existing [OF assms, of n "[]" m] by simp
  then show "stat n p = Inr m" using a by (simp add: stat_def)
qed

lemma stat_plain_None:
  assumes "plain_path p" and "node_at n p = None"
  shows "\<exists>e. stat n p = Inl e"
  using stat_plain [OF assms(1), of n] assms(2) by (cases "stat n p") auto

lemma exists_plain: "plain_path p \<Longrightarrow> exists n p \<longleftrightarrow> node_at n p \<noteq> None"
proof (cases "node_at n p")
  case None
  assume "plain_path p"
  from stat_plain_None [OF this None] show ?thesis using None by (auto simp: exists_def)
next
  case (Some m)
  assume "plain_path p"
  with Some have "stat n p = Inr m" by (simp add: stat_plain)
  then show ?thesis using Some by (simp add: exists_def)
qed

lemma is_dir_plain: "plain_path p \<Longrightarrow> is_dir n p \<longleftrightarrow> (\<exists>es. node_at n p = Some (Dir es))"
proof (cases "node_at n p")
  case None
  assume "plain_path p"
  from stat_plain_None [OF this None] show ?thesis using None by (auto simp: is_dir_def)
next
  case (Some m)
  assume "plain_path p"
  with Some have "stat n p = Inr m" by (simp add: stat_plain)
  then show ?thesis using Some by (cases m) (simp_all add: is_dir_def)
qed

lemma is_file_plain: "plain_path p \<Longrightarrow> is_file n p \<longleftrightarrow> (\<exists>d. node_at n p = Some (File d))"
proof (cases "node_at n p")
  case None
  assume "plain_path p"
  from stat_plain_None [OF this None] show ?thesis using None by (auto simp: is_file_def)
next
  case (Some m)
  assume "plain_path p"
  with Some have "stat n p = Inr m" by (simp add: stat_plain)
  then show ?thesis using Some by (cases m) (simp_all add: is_file_def)
qed


subsection \<open>Storing and removing entries\<close>

lemma node_at_put_None: "p \<noteq> [] \<Longrightarrow> node_at (put p None n) p = None"
  by (induction p "None :: node option" n rule: put.induct)
     (auto simp: AList.delete_conv' AList.update_conv' split: option.splits)

lemma node_at_put_Some:
  "node_at n (butlast p) = Some (Dir es) \<Longrightarrow> p \<noteq> [] \<Longrightarrow> node_at (put p (Some v) n) p = Some v"
  by (induction p "Some v" n arbitrary: es rule: put.induct)
     (auto simp: AList.update_conv' split: option.splits if_splits)

lemma node_at_put_other:
  "\<not> prefix p q \<Longrightarrow> \<not> prefix q p \<Longrightarrow> node_at (put p v n) q = node_at n q"
proof (induction p v n arbitrary: q rule: put.induct)
  case (1 v n)
  then show ?case by simp
next
  case (2 c cs v d)
  then show ?case by simp
next
  case (3 c v es)
  then obtain c' cs' where q: "q = c' # cs'" by (cases q) auto
  with 3 have "c' \<noteq> c" by auto
  then show ?case using q
    by (auto simp: AList.delete_conv' AList.update_conv' split: option.splits)
next
  case (4 c d cs v es)
  then obtain c' cs' where q: "q = c' # cs'" by (cases q) auto
  show ?case
  proof (cases "map_of es c")
    case None
    then show ?thesis by simp
  next
    case (Some m)
    show ?thesis
    proof (cases "c' = c")
      case True
      with 4 q Some show ?thesis by (simp add: AList.update_conv')
    next
      case False
      with q Some show ?thesis by (simp add: AList.update_conv')
    qed
  qed
qed

lemma put_through_file:
  "node_at n S = Some (File c) \<Longrightarrow> r \<noteq> [] \<Longrightarrow> put (S @ r) v n = n"
proof (induction S arbitrary: n)
  case Nil
  then show ?case by (cases r) auto
next
  case (Cons s S')
  then obtain es m where n: "n = Dir es" and m: "map_of es s = Some m"
    and a: "node_at m S' = Some (File c)"
    by (cases n) (auto split: option.splits)
  from Cons.prems(2) obtain d ds where sr: "S' @ r = d # ds" by (cases "S' @ r") auto
  have "put (S' @ r) v m = m" using Cons.IH [OF a Cons.prems(2)] .
  then show ?case using n m sr by (simp add: AList.update_triv)
qed

lemma node_at_put_File:
  assumes "node_at n S = Some (File c)" and "\<not> prefix q S"
  shows "node_at (put q v n) S = Some (File c)"
proof (cases "prefix S q")
  case True
  then obtain r where q: "q = S @ r" by (auto simp: prefix_def)
  with assms(2) have "r \<noteq> []" by auto
  from put_through_file [OF assms(1) this] q assms(1) show ?thesis by simp
next
  case False
  with assms node_at_put_other [of q S v n] show ?thesis by simp
qed

lemma put_Dir_is_Dir: "r \<noteq> [] \<Longrightarrow> \<exists>es'. put r v (Dir es) = Dir es'"
  by (cases r; cases "tl r") (auto split: option.splits)

lemma node_at_put_below:
  "node_at n q = Some m \<Longrightarrow> r \<noteq> [] \<Longrightarrow> node_at (put (q @ r) v n) q = Some (put r v m)"
proof (induction q arbitrary: n)
  case Nil
  then show ?case by simp
next
  case (Cons s q')
  then obtain es m' where n: "n = Dir es" and m': "map_of es s = Some m'"
    and a: "node_at m' q' = Some m"
    by (cases n) (auto split: option.splits)
  from Cons.prems(2) obtain d ds where sr: "q' @ r = d # ds" by (cases "q' @ r") auto
  have "node_at (put (q' @ r) v m') q' = Some (put r v m)" using Cons.IH [OF a Cons.prems(2)] .
  then show ?case using n m' sr by (simp add: AList.update_conv')
qed

lemma node_at_put_Dir:
  assumes "node_at n q = Some (Dir es)" and "\<not> prefix r q"
  shows "\<exists>es'. node_at (put r v n) q = Some (Dir es')"
proof (cases "prefix q r")
  case True
  then obtain r' where r: "r = q @ r'" by (auto simp: prefix_def)
  with assms(2) have ne: "r' \<noteq> []" by auto
  from node_at_put_below [OF assms(1) ne] r put_Dir_is_Dir [OF ne, of v es]
  show ?thesis by auto
next
  case False
  with assms node_at_put_other [of r q v n] show ?thesis by simp
qed

lemma absent_not_prefix:
  "node_at n r = None \<Longrightarrow> node_at n S = Some x \<Longrightarrow> \<not> prefix r S"
  using node_at_prefix_Some by fastforce

lemma put_Some_cases: "node_at (put r (Some v) n) r = Some v \<or> put r (Some v) n = n"
  by (induction r "Some v" n rule: put.induct)
     (auto simp: AList.update_conv' AList.update_triv split: option.splits)

lemma node_at_put_new_dir:
  assumes "node_at n r = None" and "q \<noteq> r" and "\<not> prefix q r"
  shows "node_at (put r (Some (Dir [])) n) q = node_at n q"
proof (cases "prefix r q")
  case False
  with assms node_at_put_other [of r q] show ?thesis by simp
next
  case True
  then obtain t where q: "q = r @ t" by (auto simp: prefix_def)
  with assms(2) have t: "t \<noteq> []" by auto
  have old: "node_at n q = None" using assms(1) q by (simp add: node_at_append)
  from put_Some_cases [of r "Dir []" n] show ?thesis
  proof
    assume "node_at (put r (Some (Dir [])) n) r = Some (Dir [])"
    then show ?thesis using q t old by (cases t) (auto simp: node_at_append)
  next
    assume "put r (Some (Dir [])) n = n"
    then show ?thesis by simp
  qed
qed


subsection \<open>Walking a path\<close>

lemma walk_append:
  "walk n cur (xs @ ys) = (case walk n cur xs of Inl e \<Rightarrow> Inl e | Inr q \<Rightarrow> walk n q ys)"
  by (induction xs arbitrary: cur) (auto split: option.splits node.splits)

lemma walk_mono:
  assumes "\<And>x es. node_at n x = Some (Dir es) \<Longrightarrow> \<exists>es'. node_at n' x = Some (Dir es')"
  shows "walk n cur cs = Inr q \<Longrightarrow> walk n' cur cs = Inr q"
proof (induction cs arbitrary: cur)
  case Nil
  then show ?case by simp
next
  case (Cons c cs)
  from Cons.prems obtain es where d: "node_at n cur = Some (Dir es)"
    and w: "walk n (step cur c) cs = Inr q"
    by (auto split: option.splits node.splits)
  from assms [OF d] obtain es' where "node_at n' cur = Some (Dir es')" by blast
  with Cons.IH [OF w] show ?case by simp
qed

lemma step_ordinary: "c \<noteq> ''..'' \<Longrightarrow> c \<noteq> ''.'' \<Longrightarrow> c \<noteq> [] \<Longrightarrow> step cur c = cur @ [c]"
  by (simp add: step_def)

subsection \<open>Making directories\<close>

lemma os_mkdir_Inr:
  assumes "os_mkdir p n = Inr n'"
  obtains q es where "walk n [] (butlast p) = Inr q" and "node_at n q = Some (Dir es)"
    and "\<not> special p" and "node_at n (q @ [last p]) = None"
    and "n' = put (q @ [last p]) (Some (Dir [])) n"
  using assms
  by (auto simp: os_mkdir_def parent_dir_def split: sum.splits option.splits node.splits if_splits)

lemma os_mkdir_keeps_file:
  assumes "os_mkdir p n = Inr n'" and "node_at n S = Some (File c)"
  shows "node_at n' S = Some (File c)"
proof -
  from assms(1) obtain q es where a: "node_at n (q @ [last p]) = None"
    and n': "n' = put (q @ [last p]) (Some (Dir [])) n"
    by (rule os_mkdir_Inr)
  from absent_not_prefix [OF a assms(2)] node_at_put_File [OF assms(2)] n'
  show ?thesis by simp
qed

lemma os_mkdir_keeps_dir:
  assumes "os_mkdir p n = Inr n'" and "node_at n x = Some (Dir es)"
  shows "\<exists>es'. node_at n' x = Some (Dir es')"
proof -
  from assms(1) obtain q es0 where a: "node_at n (q @ [last p]) = None"
    and n': "n' = put (q @ [last p]) (Some (Dir [])) n"
    by (rule os_mkdir_Inr)
  from absent_not_prefix [OF a assms(2)] node_at_put_Dir [OF assms(2)] n'
  show ?thesis by simp
qed

lemma os_mkdir_is_dir:
  assumes "os_mkdir p n = Inr n'"
  shows "is_dir n' p"
proof -
  from assms obtain q es where w: "walk n [] (butlast p) = Inr q"
    and d: "node_at n q = Some (Dir es)" and sp: "\<not> special p"
    and a: "node_at n (q @ [last p]) = None"
    and n': "n' = put (q @ [last p]) (Some (Dir [])) n"
    by (rule os_mkdir_Inr)
  have w': "walk n' [] (butlast p) = Inr q"
    using walk_mono [of n n', OF _ w] os_mkdir_keeps_dir [OF assms] by blast
  from os_mkdir_keeps_dir [OF assms d] obtain es' where d': "node_at n' q = Some (Dir es')"
    by blast
  from sp have p: "p = butlast p @ [last p]" and l: "step q (last p) = q @ [last p]"
    by (auto simp: special_def step_def)
  have "walk n' [] (butlast p @ [last p]) = Inr (q @ [last p])"
    using w' d' l by (simp add: walk_append)
  with p have wp: "walk n' [] p = Inr (q @ [last p])" by simp
  have "node_at n' (q @ [last p]) = Some (Dir [])"
    using node_at_put_Some [of n "q @ [last p]" es "Dir []"] d n' by simp
  with wp show ?thesis by (simp add: is_dir_def stat_def)
qed

lemma mkdir_once_is_dir: "mkdir_once e p n = (n', None) \<Longrightarrow> is_dir n' p"
  by (auto simp: mkdir_once_def os_mkdir_is_dir split: sum.splits if_splits)

lemma mkdir_parents_is_dir: "mkdir_parents e p n = (n', None) \<Longrightarrow> is_dir n' p"
  by (subst (asm) mkdir_parents.simps)
     (auto simp: os_mkdir_is_dir mkdir_once_is_dir split: sum.splits if_splits prod.splits option.splits)

lemma mkdir_once_keeps_file:
  "mkdir_once e p n = (n', x) \<Longrightarrow> node_at n S = Some (File c) \<Longrightarrow> node_at n' S = Some (File c)"
  by (auto simp: mkdir_once_def os_mkdir_keeps_file split: sum.splits if_splits)

lemma mkdir_once_keeps_dir:
  "mkdir_once e p n = (n', x) \<Longrightarrow> node_at n y = Some (Dir es)
    \<Longrightarrow> \<exists>es'. node_at n' y = Some (Dir es')"
  by (auto simp: mkdir_once_def os_mkdir_keeps_dir split: sum.splits if_splits)

lemma mkdir_parents_keeps_file:
  "mkdir_parents e p n = (n', x) \<Longrightarrow> node_at n S = Some (File c) \<Longrightarrow> node_at n' S = Some (File c)"
proof (induction e p n arbitrary: n' x rule: mkdir_parents.induct)
  case (1 exist_ok p n)
  show ?case
  proof (cases "os_mkdir p n")
    case (Inr m)
    with "1.prems" show ?thesis
      by (subst (asm) mkdir_parents.simps) (auto simp: os_mkdir_keeps_file)
  next
    case (Inl err)
    show ?thesis
    proof (cases "err = FileNotFoundError \<and> p \<noteq> []")
      case False
      with Inl "1.prems" show ?thesis
        by (subst (asm) mkdir_parents.simps) (auto split: if_splits)
    next
      case True
      obtain n1 x1 where r: "mkdir_parents True (butlast p) n = (n1, x1)"
        by (cases "mkdir_parents True (butlast p) n")
      from True Inl have k: "node_at n1 S = Some (File c)"
        using "1.IH" [OF Inl _ _ r "1.prems"(2)] by simp
      from "1.prems"(1) True Inl r k show ?thesis
        by (subst (asm) mkdir_parents.simps)
           (auto dest: mkdir_once_keeps_file split: option.splits)
    qed
  qed
qed

lemma mkdir_parents_keeps_dir:
  "mkdir_parents e p n = (n', x) \<Longrightarrow> node_at n y = Some (Dir es)
     \<Longrightarrow> \<exists>es'. node_at n' y = Some (Dir es')"
proof (induction e p n arbitrary: n' x es rule: mkdir_parents.induct)
  case (1 exist_ok p n)
  show ?case
  proof (cases "os_mkdir p n")
    case (Inr m)
    with "1.prems" show ?thesis
      by (subst (asm) mkdir_parents.simps) (auto simp: os_mkdir_keeps_dir)
  next
    case (Inl err)
    show ?thesis
    proof (cases "err = FileNotFoundError \<and> p \<noteq> []")
      case False
      with Inl "1.prems" show ?thesis
        by (subst (asm) mkdir_parents.simps) (auto split: if_splits)
    next
      case True
      obtain n1 x1 where r: "mkdir_parents True (butlast p) n = (n1, x1)"
        by (cases "mkdir_parents True (butlast p) n")
      from True Inl obtain es1 where k: "node_at n1 y = Some (Dir es1)"
        using "1.IH" [OF Inl _ _ r "1.prems"(2)] by auto
      from "1.prems"(1) True Inl r k show ?thesis
        by (subst (asm) mkdir_parents.simps)
           (auto dest: mkdir_once_keeps_dir split: option.splits)
    qed
  qed
qed

subsection \<open>Numerals and generated names\<close>

lemma of_char_digit_char: "d < 10 \<Longrightarrow> of_char (digit_char d) = (48 + d :: nat)"
  by (simp add: digit_char_def)

lemma isdecimal_digit_char: "d < 10 \<Longrightarrow> isdecimal (digit_char d)"
  by (simp add: isdecimal_def of_char_digit_char)

lemma digit_val_digit_char: "d < 10 \<Longrightarrow> digit_val (digit_char d) = d"
  by (simp add: digit_val_def of_char_digit_char)

lemma isdecimal_not:
  assumes "isdecimal c"
  shows "\<not> int_space c" and "c \<noteq> CHR ''/''" and "c \<noteq> CHR ''_''" and "c \<noteq> CHR ''-''"
    and "c \<noteq> CHR ''+''" and "c \<noteq> CHR ''.''"
  using assms by (auto simp: isdecimal_def int_space_def Let_def)

lemma str_nat_digits: "list_all isdecimal (str_nat n)"
proof (induction n rule: str_nat.induct)
  case (1 n)
  show ?case
  proof (cases "n < 10")
    case True
    then show ?thesis by (subst str_nat.simps) (simp add: isdecimal_digit_char)
  next
    case False
    have "n mod 10 < 10" by simp
    with False "1.IH" show ?thesis by (subst str_nat.simps) (simp add: isdecimal_digit_char)
  qed
qed

lemma str_nat_nonempty: "str_nat n \<noteq> []"
  by (subst str_nat.simps) simp

lemma int_digits_fold:
  "list_all isdecimal ds \<Longrightarrow> int_digits acc ds = Some (foldl (\<lambda>a c. 10 * a + digit_val c) acc ds)"
  by (induction acc ds rule: int_digits.induct) auto

lemma fold_str_nat: "foldl (\<lambda>a c. 10 * a + digit_val c) 0 (str_nat n) = n"
proof (induction n rule: str_nat.induct)
  case (1 n)
  show ?case
  proof (cases "n < 10")
    case True
    then show ?thesis by (subst str_nat.simps) (simp add: digit_val_digit_char)
  next
    case False
    have "n mod 10 < 10" by simp
    with False "1.IH" show ?thesis by (subst str_nat.simps) (simp add: digit_val_digit_char)
  qed
qed

lemma int_unsigned_str_nat: "int_unsigned (str_nat n) = Some n"
proof -
  obtain c cs where s: "str_nat n = c # cs" using str_nat_nonempty [of n] by (cases "str_nat n") auto
  have d: "list_all isdecimal (c # cs)" using str_nat_digits [of n] s by simp
  have "int_digits 0 (c # cs) = Some n" using int_digits_fold [OF d, of 0] fold_str_nat [of n] s by simp
  with d s show ?thesis by (simp add: int_unsigned_def)
qed

lemma int_strip_id:
  assumes "s \<noteq> []" and "\<not> int_space (hd s)" and "\<not> int_space (last s)"
  shows "rev (dropWhile int_space (rev (dropWhile int_space s))) = s"
proof -
  from assms have 1: "dropWhile int_space s = s" by (cases s) auto
  from assms have "rev s \<noteq> []" "\<not> int_space (hd (rev s))" by (auto simp: hd_rev)
  then have 2: "dropWhile int_space (rev s) = rev s" by (cases "rev s") auto
  show ?thesis by (simp add: 1 2)
qed

lemma py_int_str_int: "py_int (str_int i) = Some i"
proof (cases "i < 0")
  case False
  let ?s = "str_nat (nat i)"
  obtain c cs where s: "?s = c # cs" using str_nat_nonempty [of "nat i"] by (cases ?s) auto
  have d: "list_all isdecimal ?s" by (rule str_nat_digits)
  then have dc: "isdecimal c" and dl: "isdecimal (last ?s)"
    using s by (auto simp: list_all_iff)
  have "rev (dropWhile int_space (rev (dropWhile int_space ?s))) = ?s"
    using int_strip_id [of ?s] s dc dl isdecimal_not(1) by auto
  then show ?thesis using False s dc isdecimal_not [OF dc] int_unsigned_str_nat [of "nat i"]
    by (simp add: py_int_def str_int_def)
next
  case True
  let ?s = "str_nat (nat (- i))"
  have d: "list_all isdecimal ?s" by (rule str_nat_digits)
  have ne: "?s \<noteq> []" by (rule str_nat_nonempty)
  have dl: "isdecimal (last ?s)" using d ne by (auto simp: list_all_iff)
  have "rev (dropWhile int_space (rev (dropWhile int_space (CHR ''-'' # ?s)))) = CHR ''-'' # ?s"
    using int_strip_id [of "CHR ''-'' # ?s"] ne isdecimal_not(1) [OF dl] by (simp add: int_space_def)
  then show ?thesis using True int_unsigned_str_nat [of "nat (- i)"]
    by (simp add: py_int_def str_int_def)
qed

lemma str_int_chars: "c \<in> set (str_int i) \<Longrightarrow> isdecimal c \<or> c = CHR ''-''"
  using str_nat_digits by (auto simp: str_int_def list_all_iff split: if_splits)

lemma str_nat_chars: "c \<in> set (str_nat n) \<Longrightarrow> isdecimal c"
  using str_nat_digits by (auto simp: list_all_iff)

lemma str_int_nonempty: "str_int i \<noteq> []"
  by (simp add: str_int_def str_nat_nonempty)

lemma split_append_sep: "sep \<notin> set a \<Longrightarrow> split sep (a @ sep # b) = a # split sep b"
  by (induction a) (auto split: list.splits)

lemma name_index_str_int:
  assumes "CHR ''_'' \<notin> set pre"
  shows "name_index (pre @ ''_'' @ str_int i) = Some i"
proof -
  have "CHR ''_'' \<notin> set (str_int i)" using str_int_chars [of "CHR ''_''" i] isdecimal_not(3) by auto
  then have "split CHR ''_'' (str_int i) = [str_int i]" by (rule split_no_sep)
  with split_append_sep [OF assms, of "str_int i"] show ?thesis
    by (simp add: name_index_def py_int_str_int)
qed

lemma plain_name_prefixed:
  assumes "CHR ''/'' \<notin> set s" and "pre \<noteq> []" and "hd pre \<noteq> CHR ''.''" and "CHR ''/'' \<notin> set pre"
  shows "plain_name (pre @ s)"
  using assms by (cases pre) (auto simp: plain_name_def)

lemma str_int_no_slash: "CHR ''/'' \<notin> set (str_int i)"
  using str_int_chars [of "CHR ''/''" i] isdecimal_not(2) by auto

lemma str_nat_no_slash: "CHR ''/'' \<notin> set (str_nat n)"
  using str_nat_chars [of "CHR ''/''" n] isdecimal_not(2) by auto

lemma uuid4_hex_plain: "uuid4_hex u \<Longrightarrow> plain_name u"
  by (auto simp: uuid4_hex_def plain_name_def)

subsection \<open>Indices and new directories\<close>









text \<open>What the handler reads in a name with a second underscore: the piece before it.\<close>

lemma name_index_piece:
  assumes "CHR ''_'' \<notin> set a" and "CHR ''_'' \<notin> set b"
  shows "name_index (a @ CHR ''_'' # b @ CHR ''_'' # r) = py_int b"
proof -
  have "split CHR ''_'' (a @ CHR ''_'' # b @ CHR ''_'' # r) = a # split CHR ''_'' (b @ CHR ''_'' # r)"
    using assms(1) by (rule split_append_sep)
  moreover have "split CHR ''_'' (b @ CHR ''_'' # r) = b # split CHR ''_'' r"
    using assms(2) by (rule split_append_sep)
  ultimately show ?thesis by (simp add: name_index_def)
qed

lemma stat_Dir_child:
  assumes "stat n p = Inr (Dir es)" and "c \<noteq> ''..''" and "c \<noteq> ''.''" and "c \<noteq> []"
  obtains q where "walk n [] p = Inr q" and "node_at n q = Some (Dir es)"
    and "walk n [] (p @ [c]) = Inr (q @ [c])"
proof -
  from assms(1) obtain q where w: "walk n [] p = Inr q" and d: "node_at n q = Some (Dir es)"
    by (auto simp: stat_def split: sum.splits option.splits)
  have "walk n [] (p @ [c]) = Inr (q @ [c])"
    using w d assms(2-4) by (simp add: walk_append step_ordinary)
  with w d that show ?thesis by blast
qed

lemma mkdir_child:
  assumes "stat n p = Inr (Dir es)" and "plain_name c" and "\<not> exists n (p @ [c])"
  shows "\<exists>n'. mkdir_parents e (p @ [c]) n = (n', None) \<and> is_dir n' (p @ [c])"
proof -
  from assms(2) have c: "c \<noteq> ''..''" "c \<noteq> ''.''" "c \<noteq> []" by (auto simp: plain_name_def)
  from stat_Dir_child [OF assms(1) c] obtain q where w: "walk n [] p = Inr q"
    and d: "node_at n q = Some (Dir es)" and wc: "walk n [] (p @ [c]) = Inr (q @ [c])"
    by blast
  from assms(3) wc have a: "node_at n (q @ [c]) = None"
    by (auto simp: exists_def stat_def split: option.splits)
  have "os_mkdir (p @ [c]) n = Inr (put (q @ [c]) (Some (Dir [])) n)"
    using w d a c by (simp add: os_mkdir_def parent_dir_def special_def)
  then have m: "mkdir_parents e (p @ [c]) n = (put (q @ [c]) (Some (Dir [])) n, None)"
    by (subst mkdir_parents.simps) simp
  with mkdir_parents_is_dir [OF m] show ?thesis by simp
qed

subsection \<open>Plain paths: mkdir, rename and move\<close>

lemma plain_path_append: "plain_path (p @ q) \<longleftrightarrow> plain_path p \<and> plain_path q"
  by (simp add: plain_path_def)

lemma plain_path_butlast: "plain_path p \<Longrightarrow> plain_path (butlast p)"
  by (auto simp: plain_path_def list_all_iff dest: in_set_butlastD)

lemma plain_path_not_special: "plain_path p \<Longrightarrow> p \<noteq> [] \<Longrightarrow> \<not> special p"
  by (auto simp: plain_path_def special_def plain_name_def list_all_iff dest: last_in_set)

lemma parent_dir_plain:
  assumes "plain_path p" and "parent_dir n p = Inr q"
  shows "q = butlast p" and "\<exists>es. node_at n (butlast p) = Some (Dir es)"
proof -
  from assms(2) obtain es where w: "walk n [] (butlast p) = Inr q" and d: "node_at n q = Some (Dir es)"
    by (auto simp: parent_dir_def split: sum.splits option.splits node.splits)
  from walk_plain [OF plain_path_butlast [OF assms(1)] w] show q: "q = butlast p" by simp
  from d q show "\<exists>es. node_at n (butlast p) = Some (Dir es)" by simp
qed

lemma os_mkdir_plain:
  assumes "plain_path p" and "os_mkdir p n = Inr n'"
  shows "node_at n p = None" and "n' = put p (Some (Dir [])) n"
proof -
  from assms(2) obtain q es where w: "walk n [] (butlast p) = Inr q"
    and sp: "\<not> special p" and a: "node_at n (q @ [last p]) = None"
    and n': "n' = put (q @ [last p]) (Some (Dir [])) n"
    by (rule os_mkdir_Inr)
  from walk_plain [OF plain_path_butlast [OF assms(1)] w] have "q = butlast p" by simp
  moreover from sp have "p \<noteq> []" by (simp add: special_def)
  ultimately have "q @ [last p] = p" by simp
  with a n' show "node_at n p = None" and "n' = put p (Some (Dir [])) n" by simp_all
qed

lemma mkdir_once_frame:
  assumes "plain_path p" and "\<not> prefix q p" and "mkdir_once e p n = (n', x)"
  shows "node_at n' q = node_at n q"
proof (cases "os_mkdir p n")
  case (Inl err)
  with assms(3) show ?thesis by (auto simp: mkdir_once_def split: if_splits)
next
  case (Inr m)
  with assms(3) have "n' = m" by (simp add: mkdir_once_def)
  with os_mkdir_plain [OF assms(1) Inr] assms(2) node_at_put_new_dir [of n p q]
  show ?thesis by auto
qed

lemma mkdir_parents_frame:
  "plain_path p \<Longrightarrow> \<not> prefix q p \<Longrightarrow> mkdir_parents e p n = (n', x) \<Longrightarrow> node_at n' q = node_at n q"
proof (induction e p n arbitrary: n' x rule: mkdir_parents.induct)
  case (1 exist_ok p n)
  show ?case
  proof (cases "os_mkdir p n")
    case (Inr m)
    with "1.prems"(3) have "n' = m" by (subst (asm) mkdir_parents.simps) simp
    with os_mkdir_plain [OF "1.prems"(1) Inr] "1.prems"(2) node_at_put_new_dir [of n p q]
    show ?thesis by auto
  next
    case (Inl err)
    show ?thesis
    proof (cases "err = FileNotFoundError \<and> p \<noteq> []")
      case False
      with Inl "1.prems"(3) show ?thesis
        by (subst (asm) mkdir_parents.simps) (auto split: if_splits)
    next
      case True
      obtain n1 x1 where r: "mkdir_parents True (butlast p) n = (n1, x1)"
        by (cases "mkdir_parents True (butlast p) n")
      have np: "\<not> prefix q (butlast p)"
        using "1.prems"(2) by (meson prefix_order.trans prefixeq_butlast)
      have k: "node_at n1 q = node_at n q"
        using "1.IH" [OF Inl _ _ plain_path_butlast [OF "1.prems"(1)] np r] True by simp
      from "1.prems"(3) True Inl r k show ?thesis
        by (subst (asm) mkdir_parents.simps)
           (auto dest: mkdir_once_frame [OF "1.prems"(1,2)] split: option.splits)
    qed
  qed
qed

lemma os_rename_plain:
  assumes "plain_path src" and "plain_path dst" and "os_rename src dst n = Inr n'"
    and "src \<noteq> dst"
  obtains s where "node_at n src = Some s" and "n' = put dst (Some s) (put src None n)"
    and "\<not> prefix src dst" and "\<not> prefix dst src" and "dst \<noteq> []" and "src \<noteq> []"
    and "\<exists>es. node_at n (butlast dst) = Some (Dir es)"
    and "is_Dir s \<longrightarrow> (\<forall>d. node_at n dst \<noteq> Some (File d))"
proof -
  from assms(3) obtain sq s dq where w: "walk n [] src = Inr sq" and s: "node_at n sq = Some s"
    and pd: "parent_dir n dst = Inr dq" and sp: "\<not> special src" "\<not> special dst"
    by (auto simp: os_rename_def split: sum.splits option.splits if_splits)
  from walk_plain [OF assms(1) w] have sq: "sq = src" by simp
  from parent_dir_plain [OF assms(2) pd] have dq: "dq = butlast dst"
    and pdir: "\<exists>es. node_at n (butlast dst) = Some (Dir es)" by simp_all
  from sp have ne: "src \<noteq> []" "dst \<noteq> []" by (auto simp: special_def)
  then have dp: "dq @ [last dst] = dst" using dq by simp
  from assms(3,4) w s pd sp sq dp
  have r: "\<not> prefix src dst" "\<not> prefix dst src" "n' = put dst (Some s) (put src None n)"
    "is_Dir s \<longrightarrow> (\<forall>d. node_at n dst \<noteq> Some (File d))"
    by (auto simp: os_rename_def Let_def split: if_splits node.splits option.splits)
  with s sq ne pdir that show ?thesis by blast
qed

lemma shutil_move_plain:
  assumes "plain_path src" and "plain_path dst" and "shutil_move src dst n = Inr n'"
    and "src \<noteq> dst" and "\<not> is_dir n dst"
  obtains s where "node_at n src = Some s" and "n' = put dst (Some s) (put src None n)"
    and "\<not> prefix src dst" and "\<not> prefix dst src" and "dst \<noteq> []" and "src \<noteq> []"
    and "\<exists>es. node_at n (butlast dst) = Some (Dir es)"
    and "is_Dir s \<longrightarrow> (\<forall>d. node_at n dst \<noteq> Some (File d))"
proof -
  from assms(3,5) have "os_rename src dst n = Inr n'"
    by (auto simp: shutil_move_def split: sum.splits if_splits)
  from os_rename_plain [OF assms(1,2) this assms(4)] that show ?thesis by blast
qed

lemma moved_nodes:
  assumes "node_at n src = Some s" and "n' = put dst (Some s) (put src None n)"
    and "\<not> prefix src dst" and "\<not> prefix dst src" and "dst \<noteq> []" and "src \<noteq> []"
    and "node_at n (butlast dst) = Some (Dir es)"
  shows "node_at n' src = None" and "node_at n' dst = Some s"
proof -
  show "node_at n' src = None"
    using assms(2,3,4,6) by (simp add: node_at_put_other node_at_put_None)
  have "\<not> prefix src (butlast dst)"
    using assms(3) by (meson prefix_order.trans prefixeq_butlast)
  from node_at_put_Dir [OF assms(7) this] obtain es' where
    "node_at (put src None n) (butlast dst) = Some (Dir es')" by blast
  from node_at_put_Some [OF this assms(5)] assms(2) show "node_at n' dst = Some s" by simp
qed

subsection \<open>Dataset numbers\<close>

lemma next_database_index_ge: "a \<le> foldl (\<lambda>n d. if startswith d ''database_''
                   then (case name_index d of None \<Rightarrow> n | Some m \<Rightarrow> max n (m + 1))
                   else n) a xs"
proof (induction xs arbitrary: a)
  case Nil
  then show ?case by simp
next
  case (Cons x xs)
  let ?g = "\<lambda>n d. if startswith d ''database_''
                   then (case name_index d of None \<Rightarrow> n | Some m \<Rightarrow> max n (m + 1))
                   else n"
  have "a \<le> ?g a x" by (auto split: option.splits)
  also have "?g a x \<le> foldl ?g (?g a x) xs" by (rule Cons.IH)
  finally show ?case by simp
qed

lemma next_database_index_gt:
  "d \<in> set xs \<Longrightarrow> startswith d ''database_'' \<Longrightarrow> name_index d = Some m
    \<Longrightarrow> m + 1 \<le> foldl (\<lambda>n d. if startswith d ''database_''
                   then (case name_index d of None \<Rightarrow> n | Some m \<Rightarrow> max n (m + 1))
                   else n) a xs"
proof (induction xs arbitrary: a)
  case Nil
  then show ?case by simp
next
  case (Cons x xs)
  let ?g = "\<lambda>n d. if startswith d ''database_''
                   then (case name_index d of None \<Rightarrow> n | Some m \<Rightarrow> max n (m + 1))
                   else n"
  show ?case
  proof (cases "d = x")
    case True
    with Cons.prems have "m + 1 \<le> ?g a x" by simp
    also have "?g a x \<le> foldl ?g (?g a x) xs" by (rule next_database_index_ge)
    finally show ?thesis by simp
  next
    case False
    with Cons.prems have "d \<in> set xs" by simp
    from Cons.IH [OF this Cons.prems(2,3), of "?g a x"] show ?thesis by simp
  qed
qed

lemma database_name_fresh:
  assumes "(''database_'' @ str_int (next_database_index (map fst (filter (\<lambda>(d, m). is_Dir m) es))), Dir x) \<in> set es"
  shows False
proof -
  let ?xs = "map fst (filter (\<lambda>(d, m). is_Dir m) es)"
  let ?n = "next_database_index ?xs"
  let ?d = "''database_'' @ str_int ?n"
  have 1: "?d \<in> set ?xs" using assms by force
  have 2: "startswith ?d ''database_''" by (simp add: startswith_def)
  have 3: "name_index ?d = Some ?n" using name_index_str_int [of "''database''" ?n] by simp
  from next_database_index_gt [OF 1 2 3, of 1] show False by (simp add: next_database_index_def)
qed

lemma uuid4_hex_not_database: "uuid4_hex u \<Longrightarrow> ''database_'' @ s \<noteq> u"
  by (auto simp: uuid4_hex_def)

lemma roots_apart:
  "\<not> prefix (TEMP_ROOT proj @ a # p) (PERSONS_DB proj @ q)"
  "\<not> prefix (PERSONS_DB proj @ a # q) (TEMP_ROOT proj @ p)"
  "TEMP_ROOT proj @ p \<noteq> PERSONS_DB proj @ q"
  by (simp_all add: TEMP_ROOT_eq PERSONS_DB_eq)

lemma plain_roots:
  assumes "plain_path proj"
  shows "plain_path (TEMP_ROOT proj)" and "plain_path (PERSONS_DB proj)"
    and "plain_path (UPLOADS_DIR proj)" and "plain_path (ANNOTATIONS_DIR proj)"
  using assms
  by (simp_all add: TEMP_ROOT_eq PERSONS_DB_eq UPLOADS_DIR_eq ANNOTATIONS_DIR_eq plain_path_def plain_name_def)

subsection \<open>Writing files; directories are kept\<close>

lemma keeps_dirs_refl: "keeps_dirs n n"
  by (simp add: keeps_dirs_def)

lemma keeps_dirs_trans: "keeps_dirs a b \<Longrightarrow> keeps_dirs b c \<Longrightarrow> keeps_dirs a c"
  unfolding keeps_dirs_def by blast

lemma keeps_dirsD: "keeps_dirs n n' \<Longrightarrow> node_at n x = Some (Dir es) \<Longrightarrow> \<exists>es'. node_at n' x = Some (Dir es')"
  unfolding keeps_dirs_def by blast

lemma not_dir_not_prefix:
  assumes "\<And>es. node_at n r \<noteq> Some (Dir es)" and "node_at n x = Some (Dir es')"
  shows "\<not> prefix r x"
proof
  assume "prefix r x"
  then obtain t where x: "x = r @ t" by (auto simp: prefix_def)
  show False
  proof (cases "node_at n r")
    case None
    with assms(2) x show False by (simp add: node_at_append)
  next
    case (Some m)
    with assms(1) obtain d where "m = File d" by (cases m) auto
    with Some assms(2) x show False by (cases t) (auto simp: node_at_append)
  qed
qed

lemma put_keeps_dirs:
  assumes "\<And>es. node_at n r \<noteq> Some (Dir es)"
  shows "keeps_dirs n (put r v n)"
  unfolding keeps_dirs_def
  using node_at_put_Dir not_dir_not_prefix [OF assms] by blast

lemma os_mkdir_keeps_dirs: "os_mkdir p n = Inr n' \<Longrightarrow> keeps_dirs n n'"
  unfolding keeps_dirs_def using os_mkdir_keeps_dir by blast

lemma mkdir_parents_keeps_dirs: "mkdir_parents e p n = (n', x) \<Longrightarrow> keeps_dirs n n'"
  unfolding keeps_dirs_def using mkdir_parents_keeps_dir by blast

lemma write_file_Inr:
  assumes "write_file p d n = Inr n'"
  obtains q where "walk n [] (butlast p) = Inr q" and "\<not> special p"
    and "\<exists>es. node_at n q = Some (Dir es)"
    and "\<And>es. node_at n (q @ [last p]) \<noteq> Some (Dir es)"
    and "n' = put (q @ [last p]) (Some (File d)) n"
  using assms
  by (auto simp: write_file_def parent_dir_def
           split: sum.splits option.splits node.splits if_splits)

lemma write_file_keeps_dirs: "write_file p d n = Inr n' \<Longrightarrow> keeps_dirs n n'"
  by (erule write_file_Inr) (simp add: put_keeps_dirs)

lemma imwrite_keeps_dirs: "keeps_dirs n (imwrite p d n)"
  by (auto simp: imwrite_def keeps_dirs_refl write_file_keeps_dirs split: sum.splits)

lemma write_file_plain:
  assumes "plain_path p" and "write_file p d n = Inr n'"
  shows "n' = put p (Some (File d)) n" and "\<exists>es. node_at n (butlast p) = Some (Dir es)"
    and "p \<noteq> []"
proof -
  from assms(2) obtain q where w: "walk n [] (butlast p) = Inr q" and sp: "\<not> special p"
    and d: "\<exists>es. node_at n q = Some (Dir es)"
    and n': "n' = put (q @ [last p]) (Some (File d)) n"
    by (rule write_file_Inr)
  from walk_plain [OF plain_path_butlast [OF assms(1)] w] have q: "q = butlast p" by simp
  from sp show ne: "p \<noteq> []" by (simp add: special_def)
  with q have "q @ [last p] = p" by simp
  with n' show "n' = put p (Some (File d)) n" by simp
  from d q show "\<exists>es. node_at n (butlast p) = Some (Dir es)" by simp
qed

lemma write_file_plain_node:
  assumes "plain_path p" and "write_file p d n = Inr n'"
  shows "node_at n' p = Some (File d)"
  using write_file_plain [OF assms] node_at_put_Some by blast

lemma write_file_plain_frame:
  assumes "plain_path p" and "write_file p d n = Inr n'"
    and "\<not> prefix p q" and "\<not> prefix q p"
  shows "node_at n' q = node_at n q"
  using write_file_plain(1) [OF assms(1,2)] assms(3,4) by (simp add: node_at_put_other)

lemma write_file_child:
  assumes "plain_path p" and "node_at n p = Some (Dir es)" and "plain_name c"
    and "\<And>es'. node_at n (p @ [c]) \<noteq> Some (Dir es')"
  shows "write_file (p @ [c]) d n = Inr (put (p @ [c]) (Some (File d)) n)"
proof -
  have w: "walk n [] p = Inr p" using walk_existing [OF assms(1), of n "[]"] assms(2) by simp
  have sp: "\<not> special (p @ [c])" using assms(3) by (simp add: special_def plain_name_def)
  show ?thesis using w sp assms(2,4)
    by (auto simp: write_file_def parent_dir_def split: option.splits node.splits)
qed

text \<open>Errors of the file system are never an \<open>HTTPException\<close>.\<close>

lemma walk_error: "walk n cur p = Inl e \<Longrightarrow> e = FileNotFoundError \<or> e = NotADirectoryError"
  by (induction p arbitrary: cur) (auto split: option.splits node.splits)

lemma parent_dir_error:
  "parent_dir n p = Inl e \<Longrightarrow> e = FileNotFoundError \<or> e = NotADirectoryError"
  by (auto simp: parent_dir_def dest: walk_error split: sum.splits option.splits node.splits)

lemma write_file_error: "write_file p d n = Inl e \<Longrightarrow> e \<noteq> HTTPException c t"
  by (auto simp: write_file_def dest: parent_dir_error
           split: sum.splits option.splits node.splits if_splits)

lemma os_mkdir_error: "os_mkdir p n = Inl e \<Longrightarrow> e \<noteq> HTTPException c t"
  by (auto simp: os_mkdir_def dest: parent_dir_error
           split: sum.splits option.splits node.splits if_splits)

lemma mkdir_once_error: "mkdir_once ok p n = (n', Some e) \<Longrightarrow> e \<noteq> HTTPException c t"
  by (auto simp: mkdir_once_def dest: os_mkdir_error split: sum.splits if_splits)

lemma mkdir_parents_error: "mkdir_parents ok p n = (n', Some e) \<Longrightarrow> e \<noteq> HTTPException c t"
proof (induction ok p n arbitrary: n' e rule: mkdir_parents.induct)
  case (1 exist_ok p n)
  show ?case
  proof (cases "os_mkdir p n")
    case (Inr m)
    with "1.prems" show ?thesis by (subst (asm) mkdir_parents.simps) simp
  next
    case (Inl err)
    show ?thesis
    proof (cases "err = FileNotFoundError \<and> p \<noteq> []")
      case False
      with Inl "1.prems" os_mkdir_error [OF Inl] show ?thesis
        by (subst (asm) mkdir_parents.simps) (auto split: if_splits)
    next
      case True
      obtain n1 x1 where r: "mkdir_parents True (butlast p) n = (n1, x1)"
        by (cases "mkdir_parents True (butlast p) n")
      show ?thesis
      proof (cases x1)
        case None
        with "1.prems" True Inl r show ?thesis
          by (subst (asm) mkdir_parents.simps) (auto dest: mkdir_once_error)
      next
        case (Some e1)
        with "1.IH" [OF Inl _ _ ] r True have "e1 \<noteq> HTTPException c t" by simp
        with "1.prems" True Inl r Some show ?thesis
          by (subst (asm) mkdir_parents.simps) auto
      qed
    qed
  qed
qed

subsection \<open>The pipeline keeps directories and opens the snapshot last\<close>

lemma grows_refl: "grows ann s s"
  by (simp add: grows_def keeps_dirs_refl)

lemma grows_trans: "grows ann a b \<Longrightarrow> grows ann b c \<Longrightarrow> grows ann a c"
  unfolding grows_def using keeps_dirs_trans by blast

lemma save_crop_grows:
  assumes "plain_name pk" and "plain_name fn"
    and "save_crop_and_map st sid pk img fn s = (s', x)"
  shows "grows (st @ [''annotation.json'']) s s'"
proof -
  obtain fs pm log where s: "s = (fs, pm, log)" by (cases s)
  have j: "join (join st pk) fn = st @ [pk, fn]" using assms(1,2) by (simp add: join_plain)
  obtain fs1 x1 where m: "mkdir_parents True (join st pk) fs = (fs1, x1)"
    by (cases "mkdir_parents True (join st pk) fs")
  have k1: "keeps_dirs fs fs1" using m by (rule mkdir_parents_keeps_dirs)
  have k2: "keeps_dirs fs (imwrite (st @ [pk, fn]) img fs1)"
    using k1 imwrite_keeps_dirs by (rule keeps_dirs_trans)
  from assms(3) s m j k1 k2 show ?thesis
    by (cases x1) (auto simp: save_crop_and_map_def Let_def grows_def)
qed

lemma plain_generated:
  "plain_name (''person_'' @ str_int tid)"
  "plain_name (''person_'' @ str_nat k)"
  "plain_name (''f'' @ str_nat i @ ''_id'' @ str_int tid @ ''.jpg'')"
  "plain_name (''f'' @ str_nat i @ ''_p'' @ str_nat k @ ''.jpg'')"
  "plain_name (''frame_'' @ str_nat i @ ''.jpg'')"
  using str_int_no_slash [of tid] str_nat_no_slash [of k] str_nat_no_slash [of i]
  by (simp_all add: plain_name_def)

lemma track_detections_grows:
  "track_detections st sid fr k xyxy i tids s = s' \<Longrightarrow> grows (st @ [''annotation.json'']) s s'"
proof (induction tids arbitrary: i s)
  case Nil
  then show ?case by (simp add: grows_refl)
next
  case (Cons tid tids)
  show ?case
  proof (cases "if i < length xyxy then xyxy ! i else None")
    case None
    with Cons.prems Cons.IH [of "i + 1" s] show ?thesis by simp
  next
    case (Some b)
    obtain h w px where fr: "fr = Frame h w px" by (cases fr)
    obtain x1 y1 x2 y2 where cb: "clamp_box h w b = (x1, y1, x2, y2)" by (cases "clamp_box h w b")
    show ?thesis
    proof (cases "keep_box (x1, y1, x2, y2)")
      case False
      with Cons.prems Some fr cb Cons.IH [of "i + 1" s] show ?thesis by simp
    next
      case True
      obtain s1 x where sc: "save_crop_and_map st sid (''person_'' @ str_int tid) (Crop px x1 y1 x2 y2)
              (''f'' @ str_nat k @ ''_id'' @ str_int tid @ ''.jpg'') s = (s1, x)"
        by (cases "save_crop_and_map st sid (''person_'' @ str_int tid) (Crop px x1 y1 x2 y2)
              (''f'' @ str_nat k @ ''_id'' @ str_int tid @ ''.jpg'') s")
      have g1: "grows (st @ [''annotation.json'']) s s1"
        using save_crop_grows [OF plain_generated(1) plain_generated(3) sc] .
      show ?thesis
      proof (cases x)
        case None
        with Cons.prems Some fr cb True sc
        have "track_detections st sid fr k xyxy (i + 1) tids s1 = s'" by simp
        from grows_trans [OF g1 Cons.IH [OF this]] show ?thesis .
      next
        case (Some e)
        with Cons.prems \<open>(if i < length xyxy then xyxy ! i else None) = Some b\<close> fr cb True sc
        have "s' = s1" by simp
        with g1 show ?thesis by simp
      qed
    qed
  qed
qed

lemma track_frame_grows:
  "grows (st @ [''annotation.json'']) s (track_frame st sid k result s)"
  by (auto simp: track_frame_def grows_refl track_detections_grows
           split: track_result.splits option.splits track_boxes.splits ids.splits)

lemma track_loop_grows:
  "grows (st @ [''annotation.json'']) s (track_loop st sid k stream s)"
proof (induction stream arbitrary: k s)
  case Nil
  then show ?case by (simp add: grows_refl)
next
  case (Cons r stream)
  from grows_trans [OF track_frame_grows Cons.IH] show ?case by simp
qed

lemma detect_boxes_grows:
  "detect_boxes st sid fr k boxes pid s = ((s', pid'), x) \<Longrightarrow> grows (st @ [''annotation.json'']) s s'"
proof (induction boxes arbitrary: pid s)
  case Nil
  then show ?case by (simp add: grows_refl)
next
  case (Cons r boxes)
  show ?case
  proof (cases r)
    case None
    with Cons.prems Cons.IH [of pid s] show ?thesis by simp
  next
    case (Some b)
    obtain h w px where fr: "fr = Frame h w px" by (cases fr)
    obtain x1 y1 x2 y2 where cb: "clamp_box h w b = (x1, y1, x2, y2)" by (cases "clamp_box h w b")
    show ?thesis
    proof (cases "keep_box (x1, y1, x2, y2)")
      case False
      with Cons.prems Some fr cb Cons.IH [of pid s] show ?thesis by simp
    next
      case True
      obtain s1 y where sc: "save_crop_and_map st sid (''person_'' @ str_nat pid) (Crop px x1 y1 x2 y2)
              (''f'' @ str_nat k @ ''_p'' @ str_nat pid @ ''.jpg'') s = (s1, y)"
        by (cases "save_crop_and_map st sid (''person_'' @ str_nat pid) (Crop px x1 y1 x2 y2)
              (''f'' @ str_nat k @ ''_p'' @ str_nat pid @ ''.jpg'') s")
      have g1: "grows (st @ [''annotation.json'']) s s1"
        using save_crop_grows [OF plain_generated(2) plain_generated(4) sc] .
      show ?thesis
      proof (cases y)
        case None
        with Cons.prems Some fr cb True sc
        have "detect_boxes st sid fr k boxes (pid + 1) s1 = ((s', pid'), x)" by simp
        from grows_trans [OF g1 Cons.IH [OF this]] show ?thesis .
      next
        case (Some e)
        with Cons.prems \<open>r = Some b\<close> fr cb True sc have "s' = s1" by simp
        with g1 show ?thesis by simp
      qed
    qed
  qed
qed

lemma detect_loop_grows:
  "detect_loop st sid k pid frames s = (s', x) \<Longrightarrow> grows (st @ [''annotation.json'']) s s'"
proof (induction frames arbitrary: k pid s)
  case Nil
  then show ?case by (simp add: grows_refl)
next
  case (Cons a frames)
  obtain fr outcome where a: "a = (fr, outcome)" by (cases a)
  obtain fs pm log where s: "s = (fs, pm, log)" by (cases s)
  let ?p = "join st (''frame_'' @ str_nat k @ ''.jpg'')"
  let ?s1 = "(imwrite ?p (case fr of Frame h w px \<Rightarrow> Bytes px) fs, pm, log @ [?p])"
  have "?p = st @ [''frame_'' @ str_nat k @ ''.jpg'']" using plain_generated(5) by (rule join_plain)
  then have g1: "grows (st @ [''annotation.json'']) s ?s1"
    using s by (simp add: grows_def imwrite_keeps_dirs)
  show ?case
  proof (cases outcome)
    case (DetectRaises msg)
    with Cons.prems a s have "s' = ?s1" by (simp add: Let_def)
    with g1 show ?thesis by simp
  next
    case (Detect boxes)
    obtain s2 pid2 y where db: "detect_boxes st sid fr k boxes pid ?s1 = ((s2, pid2), y)"
      by (cases "detect_boxes st sid fr k boxes pid ?s1") auto
    have g2: "grows (st @ [''annotation.json'']) s s2"
      using grows_trans [OF g1 detect_boxes_grows [OF db]] .
    show ?thesis
    proof (cases y)
      case None
      with Cons.prems a s Detect db
      have "detect_loop st sid (k + 1) pid2 frames s2 = (s', x)" by (simp add: Let_def)
      from grows_trans [OF g2 Cons.IH [OF this]] show ?thesis .
    next
      case (Some e)
      with Cons.prems a s Detect db have "s' = s2" by (simp add: Let_def)
      with g2 show ?thesis by simp
    qed
  qed
qed

subsection \<open>The whole pipeline\<close>

lemma plain_name_suffixed:
  assumes "plain_name s" and "t \<noteq> []" and "CHR ''/'' \<notin> set t"
  shows "plain_name (s @ t)"
proof -
  from assms(1) obtain c cs where s: "s = c # cs" by (cases s) (auto simp: plain_name_def)
  from assms(2) obtain d ds where t: "t = d # ds" by (cases t) auto
  have "s @ t \<noteq> ''.''" using s t by simp
  moreover have "s @ t \<noteq> ''..''"
  proof
    assume "s @ t = ''..''"
    with s t have "s = ''.''" by (cases cs) auto
    with assms(1) show False by (simp add: plain_name_def)
  qed
  ultimately show ?thesis using assms by (auto simp: plain_name_def)
qed

lemma loops_grow:
  assumes "(case model of
              Tracking (TrackRaises msg) \<Rightarrow> (s, Some (RuntimeError msg))
            | Tracking (TrackStream stream fin) \<Rightarrow>
                (track_loop st sid 0 stream s, map_option RuntimeError fin)
            | Detecting frames \<Rightarrow> detect_loop st sid 0 0 frames s) = (s1, x)"
  shows "grows (st @ [''annotation.json'']) s s1"
proof (cases model)
  case (Tracking run)
  with assms show ?thesis
    by (cases run) (auto simp: grows_refl track_loop_grows)
next
  case (Detecting frames)
  with assms show ?thesis by (simp add: detect_loop_grows)
qed

lemma process_video_fail:
  assumes "plain_name sid" and "process_video proj sid model s = (s', Some e)"
  shows "keeps_dirs (fst s) (fst s')"
proof -
  let ?st = "join (TEMP_ROOT proj) sid"
  have st: "?st = TEMP_ROOT proj @ [sid]" using assms(1) by (rule join_plain)
  obtain s1 x where l: "(case model of
              Tracking (TrackRaises msg) \<Rightarrow> (s, Some (RuntimeError msg))
            | Tracking (TrackStream stream fin) \<Rightarrow>
                (track_loop ?st sid 0 stream s, map_option RuntimeError fin)
            | Detecting frames \<Rightarrow> detect_loop ?st sid 0 0 frames s) = (s1, x)"
    by (cases "(case model of
              Tracking (TrackRaises msg) \<Rightarrow> (s, Some (RuntimeError msg))
            | Tracking (TrackStream stream fin) \<Rightarrow>
                (track_loop ?st sid 0 stream s, map_option RuntimeError fin)
            | Detecting frames \<Rightarrow> detect_loop ?st sid 0 0 frames s)")
  from loops_grow [OF l] have k1: "keeps_dirs (fst s) (fst s1)" by (simp add: grows_def)
  obtain fs1 pm log1 where s1: "s1 = (fs1, pm, log1)" by (cases s1)
  show ?thesis
  proof (cases x)
    case (Some e1)
    with assms(2) l have "s' = s1" by (simp add: process_video_def Let_def)
    with k1 show ?thesis by simp
  next
    case None
    show ?thesis
    proof (cases "write_file (join ?st ''annotation.json'') (Json (json_persons pm)) fs1")
      case (Inl e1)
      with assms(2) l None s1 have "fst s' = fs1" by (auto simp: process_video_def Let_def)
      with k1 s1 show ?thesis by simp
    next
      case (Inr fs2)
      from write_file_keeps_dirs [OF Inr] k1 s1 have k2: "keeps_dirs (fst s) fs2"
        using keeps_dirs_trans by auto
      from assms(2) l None s1 Inr have "fst s' = fs2"
        by (auto simp: process_video_def Let_def split: sum.splits)
      with k2 show ?thesis by simp
    qed
  qed
qed

lemma process_video_ok:
  assumes "plain_path proj" and "plain_name sid"
    and "process_video proj sid model (fs, pm0, log0) = ((fs', pm, log), None)"
    and "TEMP_ROOT proj @ [sid, ''annotation.json''] \<notin> set log0"
  shows "count_list log (TEMP_ROOT proj @ [sid, ''annotation.json'']) = 1"
    and "node_at fs' (TEMP_ROOT proj @ [sid, ''annotation.json''])
           = Some (File (Json (json_persons pm)))"
proof -
  let ?st = "join (TEMP_ROOT proj) sid"
  let ?ann = "TEMP_ROOT proj @ [sid, ''annotation.json'']"
  let ?sum = "ANNOTATIONS_DIR proj @ [sid @ ''_summary.json'']"
  have st: "?st = TEMP_ROOT proj @ [sid]" using assms(2) by (rule join_plain)
  have ja: "join ?st ''annotation.json'' = ?ann" using st by (simp add: join_plain plain_name_def)
  have ps: "plain_name (sid @ ''_summary.json'')" using assms(2) by (rule plain_name_suffixed) simp_all
  then have js: "join (ANNOTATIONS_DIR proj) (sid @ ''_summary.json'') = ?sum" by (rule join_plain)
  have pann: "plain_path ?ann"
    using plain_roots(1) [OF assms(1)] assms(2) by (simp add: plain_path_def plain_name_def)
  have psum: "plain_path ?sum"
    using plain_roots(4) [OF assms(1)] ps by (simp add: plain_path_def)
  have apart: "?sum \<noteq> ?ann" "\<not> prefix ?sum ?ann" "\<not> prefix ?ann ?sum"
    by (simp_all add: TEMP_ROOT_eq ANNOTATIONS_DIR_eq)
  obtain s1 x where l: "(case model of
              Tracking (TrackRaises msg) \<Rightarrow> ((fs, pm0, log0), Some (RuntimeError msg))
            | Tracking (TrackStream stream fin) \<Rightarrow>
                (track_loop ?st sid 0 stream (fs, pm0, log0), map_option RuntimeError fin)
            | Detecting frames \<Rightarrow> detect_loop ?st sid 0 0 frames (fs, pm0, log0)) = (s1, x)"
    by (cases "(case model of
              Tracking (TrackRaises msg) \<Rightarrow> ((fs, pm0, log0), Some (RuntimeError msg))
            | Tracking (TrackStream stream fin) \<Rightarrow>
                (track_loop ?st sid 0 stream (fs, pm0, log0), map_option RuntimeError fin)
            | Detecting frames \<Rightarrow> detect_loop ?st sid 0 0 frames (fs, pm0, log0))")
  obtain fs1 pm1 log1 where s1: "s1 = (fs1, pm1, log1)" by (cases s1)
  from loops_grow [OF l] s1 st assms(4) have nl: "?ann \<notin> set log1" by (auto simp: grows_def)
  from assms(3) l s1 ja js obtain fs2 where
      x: "x = None" and pm: "pm = pm1"
    and w1: "write_file ?ann (Json (json_persons pm1)) fs1 = Inr fs2"
    and w2: "write_file ?sum (Json (json_summary sid pm1)) fs2 = Inr fs'"
    and lg: "log = log1 @ [?ann, ?sum]"
    by (auto simp: process_video_def Let_def split: option.splits sum.splits)
  from nl have "count_list log1 ?ann = 0" by (simp add: count_list_0_iff)
  with lg apart(1) show "count_list log ?ann = 1" by simp
  from write_file_plain_node [OF pann w1] have "node_at fs2 ?ann = Some (File (Json (json_persons pm1)))" .
  with write_file_plain_frame [OF psum w2 apart(2,3)] pm
  show "node_at fs' ?ann = Some (File (Json (json_persons pm)))" by simp
qed

subsection \<open>Ingestion without a detector\<close>

lemma roots_apart_uploads:
  "\<not> prefix (UPLOADS_DIR proj @ a # p) (TEMP_ROOT proj @ q)"
  "\<not> prefix (TEMP_ROOT proj @ a # q) (UPLOADS_DIR proj @ p)"
  "UPLOADS_DIR proj @ p \<noteq> TEMP_ROOT proj @ q"
  by (simp_all add: TEMP_ROOT_eq UPLOADS_DIR_eq)

lemma upload_video_no_model:
  assumes pp: "plain_path proj" and ps: "plain_name session_id"
    and ud: "is_dir fs (UPLOADS_DIR proj)" and td: "is_dir fs (TEMP_ROOT proj)"
    and fu: "\<not> exists fs (join (UPLOADS_DIR proj) (session_id @ ''.mp4''))"
    and ft: "\<not> exists fs (join (TEMP_ROOT proj) session_id)"
  obtains fs' where
      "upload_video proj session_id video None fs
         = (fs', [UPLOADS_DIR proj @ [session_id @ ''.mp4'']], Inr (session_id, []))"
    and "is_dir fs' (join (TEMP_ROOT proj) session_id)"
    and "node_at fs' (TEMP_ROOT proj @ [session_id, ''annotation.json'']) = None"
proof -
  let ?U = "UPLOADS_DIR proj" and ?T = "TEMP_ROOT proj"
  let ?c = "session_id @ ''.mp4''"
  let ?st = "?T @ [session_id]"
  have pU: "plain_path ?U" and pT: "plain_path ?T" using plain_roots [OF pp] by simp_all
  have pc: "plain_name ?c" using ps by (rule plain_name_suffixed) simp_all
  have ju: "join ?U ?c = ?U @ [?c]" using pc by (rule join_plain)
  have jt: "join ?T session_id = ?st" using ps by (rule join_plain)
  have pup: "plain_path (?U @ [?c])" using pU pc by (simp add: plain_path_def)
  have pst: "plain_path ?st" using pT ps by (simp add: plain_path_def)
  from ud obtain es where Ud: "node_at fs ?U = Some (Dir es)" using is_dir_plain [OF pU] by blast
  from td obtain ts where Td: "node_at fs ?T = Some (Dir ts)" using is_dir_plain [OF pT] by blast
  from fu ju have nu: "node_at fs (?U @ [?c]) = None" using exists_plain [OF pup] by simp
  from ft jt have nt: "node_at fs ?st = None" using exists_plain [OF pst] by simp
  let ?fs0 = "put (?U @ [?c]) (Some (File (Bytes video))) fs"
  have w: "write_file (?U @ [?c]) (Bytes video) fs = Inr ?fs0"
    using write_file_child [OF pU Ud pc] nu by simp
  from write_file_keeps_dirs [OF w] Td obtain ts' where Td0: "node_at ?fs0 ?T = Some (Dir ts')"
    by (auto dest: keeps_dirsD)
  have nt0: "node_at ?fs0 ?st = None"
    using write_file_plain_frame [OF pup w, of ?st] roots_apart_uploads(1) [of proj ?c "[]" "[session_id]"]
      roots_apart_uploads(2) [of proj session_id "[]" "[?c]"] nt by simp
  have st0: "stat ?fs0 ?T = Inr (Dir ts')" using Td0 stat_plain [OF pT] by simp
  have ne0: "\<not> exists ?fs0 ?st" using nt0 exists_plain [OF pst] by simp
  from mkdir_child [OF st0 ps ne0, of True] obtain fs1
    where m: "mkdir_parents True ?st ?fs0 = (fs1, None)" and d: "is_dir fs1 ?st" by blast
  have "node_at fs1 (?T @ [session_id, ''annotation.json'']) = node_at ?fs0 (?T @ [session_id, ''annotation.json''])"
    using mkdir_parents_frame [OF pst _ m, of "?T @ [session_id, ''annotation.json'']"] by simp
  also have "\<dots> = None" using nt0 node_at_append [of ?fs0 ?st "[''annotation.json'']"] by simp
  finally have na: "node_at fs1 (?T @ [session_id, ''annotation.json'']) = None" .
  have "upload_video proj session_id video None fs = (fs1, [?U @ [?c]], Inr (session_id, []))"
    using w m ju jt by (simp add: upload_video_def Let_def)
  with d jt na that show ?thesis by simp
qed

subsection \<open>Corrections and existing files\<close>

lemma far_put_keeps:
  assumes "node_at n S = Some (File c)" and "length S < length q"
  shows "node_at (put q v n) S = Some (File c)"
proof -
  have "\<not> prefix q S" using assms(2) prefix_length_le [of q S] by auto
  with assms(1) show ?thesis by (rule node_at_put_File)
qed

lemma os_rename_same:
  assumes "plain_path p" and "os_rename p p n = Inr n'"
  shows "n' = n"
proof -
  from assms(2) obtain sq dq where w: "walk n [] p = Inr sq" and pd: "parent_dir n p = Inr dq"
    and sp: "\<not> special p"
    by (auto simp: os_rename_def split: sum.splits option.splits if_splits)
  from walk_plain [OF assms(1) w] have sq: "sq = p" by simp
  from parent_dir_plain(1) [OF assms(1) pd] have dq: "dq = butlast p" .
  from sp have "p \<noteq> []" by (simp add: special_def)
  with dq have "dq @ [last p] = p" by simp
  with assms(2) w pd sp sq show ?thesis
    by (auto simp: os_rename_def Let_def split: option.splits)
qed

lemma os_rename_put:
  assumes "plain_path src" and "plain_path dst" and "os_rename src dst n = Inr n'"
  shows "n' = n \<or> (\<exists>s. n' = put dst (Some s) (put src None n))"
proof (cases "src = dst")
  case True
  with assms os_rename_same show ?thesis by blast
next
  case False
  from os_rename_plain [OF assms False] show ?thesis by metis
qed

lemma shutil_move_put:
  assumes "plain_path src" and "plain_path dst" and "src \<noteq> []"
    and "shutil_move src dst n = Inr n'"
  shows "n' = n \<or> (\<exists>s d'. (d' = dst \<or> d' = dst @ [name_of src])
                        \<and> n' = put d' (Some s) (put src None n))"
proof -
  have pn: "plain_path (dst @ [name_of src])"
    using assms(1,2,3) by (auto simp: plain_path_def name_of_def list_all_iff)
  from assms(4) have "os_rename src dst n = Inr n' \<or> os_rename src (dst @ [name_of src]) n = Inr n'"
    by (auto simp: shutil_move_def Let_def split: if_splits sum.splits)
  then show ?thesis
  proof
    assume "os_rename src dst n = Inr n'"
    from os_rename_put [OF assms(1,2) this] show ?thesis by blast
  next
    assume "os_rename src (dst @ [name_of src]) n = Inr n'"
    from os_rename_put [OF assms(1) pn this] show ?thesis by blast
  qed
qed

lemma unlink_plain:
  assumes "plain_path p" and "unlink p n = Inr n'"
  shows "n' = put p None n"
proof -
  from assms(2) obtain q where w: "walk n [] p = Inr q" and n': "n' = put q None n"
    by (auto simp: unlink_def split: sum.splits option.splits node.splits)
  from walk_plain [OF assms(1) w] n' show ?thesis by simp
qed

lemma uri_path_plain:
  assumes "plain_uri uri" and "5 \<le> length (split CHR ''/'' uri)"
  shows "\<exists>s g f. plain_name s \<and> plain_name g \<and> plain_name f
           \<and> s = split CHR ''/'' uri ! 2
           \<and> f = last (split CHR ''/'' uri)
           \<and> join (join (join (TEMP_ROOT proj) (split CHR ''/'' uri ! 2)) (split CHR ''/'' uri ! 3))
                (last (split CHR ''/'' uri)) = TEMP_ROOT proj @ [s, g, f]"
  using assms by (auto simp: plain_uri_def Let_def join_plain)

lemma add_person_keeps_file:
  assumes "node_at fs S = Some (File c)"
  shows "node_at (fst (add_person proj payload fs)) S = Some (File c)"
proof -
  have "fst (add_person proj payload fs) = fs
     \<or> (\<exists>nf x. mkdir_parents False nf fs = (fst (add_person proj payload fs), x))"
    by (auto simp: add_person_def Let_def split: option.splits sum.splits prod.splits)
  with assms mkdir_parents_keeps_file show ?thesis by metis
qed

lemma delete_image_keeps_file:
  assumes "node_at fs S = Some (File c)" and "length S = length (TEMP_ROOT proj) + 2"
    and "addresses_plain (DeleteImage payload)" and "plain_path proj"
  shows "node_at (fst (delete_image proj payload fs)) S = Some (File c)"
proof (cases "fst (delete_image proj payload fs) = fs")
  case True
  with assms(1) show ?thesis by simp
next
  case False
  then obtain path where p: "payload ''path'' = Some path"
    and l: "5 \<le> length (split CHR ''/'' path)"
    and u: "unlink (join (join (join (TEMP_ROOT proj) (split CHR ''/'' path ! 2)) (split CHR ''/'' path ! 3))
                (last (split CHR ''/'' path))) fs = Inr (fst (delete_image proj payload fs))"
    by (auto simp: delete_image_def Let_def split: option.splits if_splits sum.splits)
  from assms(3) p have "plain_uri path" by simp
  from uri_path_plain [OF this l, of proj] obtain s g f where
      pl: "plain_name s" "plain_name g" "plain_name f"
    and j: "join (join (join (TEMP_ROOT proj) (split CHR ''/'' path ! 2)) (split CHR ''/'' path ! 3))
                (last (split CHR ''/'' path)) = TEMP_ROOT proj @ [s, g, f]"
    by blast
  have pp: "plain_path proj \<Longrightarrow> plain_path (TEMP_ROOT proj @ [s, g, f])"
    using pl plain_roots(1) by (simp add: plain_path_def)
  from assms(4) have "plain_path (TEMP_ROOT proj @ [s, g, f])" by (rule pp)
  from unlink_plain [OF this] u j
  have "fst (delete_image proj payload fs) = put (TEMP_ROOT proj @ [s, g, f]) None fs" by simp
  with far_put_keeps [OF assms(1), of "TEMP_ROOT proj @ [s, g, f]" None] assms(2)
  show ?thesis by simp
qed

lemma rename_person_keeps_file:
  assumes "node_at fs (TEMP_ROOT proj @ [sid, ''annotation.json'']) = Some (File c)"
    and "addresses_plain (RenamePerson payload)" and "plain_path proj"
  shows "node_at (fst (rename_person proj payload fs)) (TEMP_ROOT proj @ [sid, ''annotation.json''])
           = Some (File c)"
proof (cases "fst (rename_person proj payload fs) = fs")
  case True
  with assms(1) show ?thesis by simp
next
  case False
  let ?S = "TEMP_ROOT proj @ [sid, ''annotation.json'']"
  from False obtain s old new where p: "payload ''session_id'' = Some s"
      "payload ''old_name'' = Some old" "payload ''new_name'' = Some new"
    and ne: "\<not> exists fs (join (join (TEMP_ROOT proj) s) new)"
    and r: "os_rename (join (join (TEMP_ROOT proj) s) old) (join (join (TEMP_ROOT proj) s) new) fs
              = Inr (fst (rename_person proj payload fs))"
    by (auto simp: rename_person_def Let_def split: option.splits if_splits sum.splits)
  from assms(2) p have pl: "plain_name s" "plain_name old" "plain_name new"
    and oa: "old \<noteq> ''annotation.json''" by simp_all
  let ?old = "TEMP_ROOT proj @ [s, old]" and ?new = "TEMP_ROOT proj @ [s, new]"
  have jo: "join (join (TEMP_ROOT proj) s) old = ?old" and jn: "join (join (TEMP_ROOT proj) s) new = ?new"
    using pl by (simp_all add: join_plain)
  have po: "plain_path ?old" and pn: "plain_path ?new"
    using pl plain_roots(1) [OF assms(3)] by (simp_all add: plain_path_def)
  from ne jn have "node_at fs ?new = None" using exists_plain [OF pn] by simp
  with assms(1) have nS: "?new \<noteq> ?S" by auto
  have oS: "?old \<noteq> ?S" using oa by simp
  have npre: "\<not> prefix ?new ?S" "\<not> prefix ?old ?S"
    using nS oS by (auto simp: prefix_def)
  from os_rename_put [OF po pn] r jo jn
  have "fst (rename_person proj payload fs) = fs
      \<or> (\<exists>x. fst (rename_person proj payload fs) = put ?new (Some x) (put ?old None fs))"
    by simp
  with False obtain x where "fst (rename_person proj payload fs) = put ?new (Some x) (put ?old None fs)"
    by blast
  with node_at_put_File [OF node_at_put_File [OF assms(1) npre(2)] npre(1)]
  show ?thesis by simp
qed

lemma last_dot_split:
  assumes "CHR ''.'' \<in> set f"
  shows "\<exists>r. f = rev r @ CHR ''.'' # rev (takeWhile (\<lambda>c. c \<noteq> CHR ''.'') (rev f))"
proof -
  let ?P = "\<lambda>c. c \<noteq> CHR ''.''"
  from assms have "CHR ''.'' \<in> set (rev f)" by simp
  then have ne: "dropWhile ?P (rev f) \<noteq> []" by (simp add: dropWhile_eq_Nil_conv)
  then have "\<not> ?P (hd (dropWhile ?P (rev f)))" by (rule hd_dropWhile)
  with ne obtain r where d: "dropWhile ?P (rev f) = CHR ''.'' # r"
    by (cases "dropWhile ?P (rev f)") auto
  have "rev f = takeWhile ?P (rev f) @ dropWhile ?P (rev f)" by simp
  with d have "rev f = takeWhile ?P (rev f) @ CHR ''.'' # r" by simp
  then have "rev (rev f) = rev (takeWhile ?P (rev f) @ CHR ''.'' # r)" by (rule arg_cong)
  then have "f = rev r @ CHR ''.'' # rev (takeWhile ?P (rev f))" by simp
  then show ?thesis by blast
qed


lemma splitext_append:
  assumes "splitext f = (base, ext)"
  shows "f = base @ ext"
proof -
  define e where "e = rev (takeWhile (\<lambda>c. c \<noteq> CHR ''.'') (rev f))"
  have sp: "splitext f =
     (if CHR ''.'' \<in> set f \<and> (\<exists>c \<in> set (take (length f - length e - 1) f). c \<noteq> CHR ''.'')
      then (take (length f - length e - 1) f, CHR ''.'' # e) else (f, []))"
    unfolding splitext_def Let_def e_def ..
  show ?thesis
  proof (cases "CHR ''.'' \<in> set f \<and> (\<exists>c \<in> set (take (length f - length e - 1) f). c \<noteq> CHR ''.'')")
    case False
    from sp have "splitext f = (f, [])" unfolding if_not_P [OF False] .
    with assms have "(f, []) = (base, ext)" by simp
    then show ?thesis by simp
  next
    case True
    from sp have "splitext f = (take (length f - length e - 1) f, CHR ''.'' # e)"
      unfolding if_P [OF True] .
    with assms have "(take (length f - length e - 1) f, CHR ''.'' # e) = (base, ext)"
      by simp
    then have b: "base = take (length f - length e - 1) f" and x: "ext = CHR ''.'' # e" by simp_all
    from True have "CHR ''.'' \<in> set f" ..
    from last_dot_split [OF this] obtain r where "f = rev r @ CHR ''.'' # e" unfolding e_def ..
    then have fe: "f = rev r @ ext" using x by simp
    have "length f = length r + length ext" by (subst fe) simp
    then have "length f - length e - 1 = length r" using x by simp
    then have "base = take (length r) f" using b by simp
    also have "\<dots> = take (length r) (rev r @ ext)" by (subst fe) simp
    also have "\<dots> = rev r" by simp
    finally show ?thesis using fe by simp
  qed
qed

lemma suffixed_plain:
  assumes "plain_name f" and "uuid4_hex u" and "splitext f = (base, ext)"
  shows "plain_name (base @ ''_'' @ take 6 u @ ext)"
proof -
  have tw: "set (takeWhile (\<lambda>c. c \<noteq> CHR ''.'') (rev f)) \<subseteq> set f"
    using set_takeWhileD [of _ "\<lambda>c. c \<noteq> CHR ''.''" "rev f"] by auto
  from assms(3) have be: "set base \<subseteq> set f" "set ext \<subseteq> set f"
    using tw by (auto simp: splitext_def Let_def split: if_splits dest: in_set_takeD)
  have "CHR ''/'' \<notin> set (take 6 u)" using assms(2) by (auto simp: uuid4_hex_def dest: in_set_takeD)
  with be assms(1) have ns: "CHR ''/'' \<notin> set (base @ ''_'' @ take 6 u @ ext)"
    by (auto simp: plain_name_def)
  have "base @ ''_'' @ take 6 u @ ext \<noteq> ''.''"
    by (cases base) auto
  moreover have "base @ ''_'' @ take 6 u @ ext \<noteq> ''..''"
    by (cases base; cases "tl base") auto
  ultimately show ?thesis using ns by (simp add: plain_name_def)
qed

lemma move_image_keeps_file:
  assumes "node_at fs S = Some (File c)" and "length S = length (TEMP_ROOT proj) + 2"
    and "addresses_plain (MoveImage uuid payload)" and "plain_path proj"
  shows "node_at (fst (move_image proj uuid payload fs)) S = Some (File c)"
proof (cases "fst (move_image proj uuid payload fs) = fs")
  case True
  with assms(1) show ?thesis by simp
next
  case False
  from False obtain src dest where p: "payload ''src'' = Some src" "payload ''dest_person'' = Some dest"
    by (auto simp: move_image_def split: option.splits)
  from False p have l: "5 \<le> length (split CHR ''/'' src)"
    by (auto simp: move_image_def Let_def split: if_splits)
  from assms(3) p have pu: "plain_uri src" and pd: "plain_name dest" and hx: "uuid4_hex uuid"
    by simp_all
  from uri_path_plain [OF pu l, of proj] obtain s g f where
      pl: "plain_name s" "plain_name g" "plain_name f"
    and s: "s = split CHR ''/'' src ! 2" and f: "f = last (split CHR ''/'' src)"
    and j: "join (join (join (TEMP_ROOT proj) (split CHR ''/'' src ! 2)) (split CHR ''/'' src ! 3))
                (last (split CHR ''/'' src)) = TEMP_ROOT proj @ [s, g, f]"
    by blast
  let ?src = "TEMP_ROOT proj @ [s, g, f]"
  let ?df = "TEMP_ROOT proj @ [s, dest]"
  have jd: "join (join (TEMP_ROOT proj) (split CHR ''/'' src ! 2)) dest = ?df"
    using pl pd s by (simp add: join_plain)
  obtain base ext where se: "splitext f = (base, ext)" by (cases "splitext f")
  let ?sfx = "base @ ''_'' @ take 6 uuid @ ext"
  have psf: "plain_name ?sfx" using suffixed_plain [OF pl(3) hx se] .
  obtain fs1 x1 where m: "mkdir_parents True ?df fs = (fs1, x1)" by (cases "mkdir_parents True ?df fs")
  from mkdir_parents_keeps_file [OF m assms(1)] have k1: "node_at fs1 S = Some (File c)" .
  let ?dst = "if exists fs1 (?df @ [f]) then ?df @ [?sfx] else ?df @ [f]"
  have jf: "join ?df f = ?df @ [f]" "join ?df ?sfx = ?df @ [?sfx]"
    using pl(3) psf by (simp_all add: join_plain)
  show ?thesis
  proof (cases x1)
    case (Some e)
    with False p l j jd m s f have "fst (move_image proj uuid payload fs) = fs1"
      by (auto simp: move_image_def Let_def split: if_splits)
    with k1 show ?thesis by simp
  next
    case None
    show ?thesis
    proof (cases "shutil_move ?src ?dst fs1")
      case (Inl e)
      with False p l j jd m s f None se jf have "fst (move_image proj uuid payload fs) = fs1"
        by (auto simp: move_image_def Let_def split: if_splits)
      with k1 show ?thesis by simp
    next
      case (Inr fs2)
      with False p l j jd m s f None se jf have e: "fst (move_image proj uuid payload fs) = fs2"
        by (auto simp: move_image_def Let_def split: if_splits)
      have psrc: "plain_path ?src" using pl plain_roots(1) [OF assms(4)] by (simp add: plain_path_def)
      have pdst: "plain_path ?dst" using pl pd psf plain_roots(1) [OF assms(4)] by (simp add: plain_path_def)
      from shutil_move_put [OF psrc pdst _ Inr]
      have "fs2 = fs1 \<or> (\<exists>x d'. (d' = ?dst \<or> d' = ?dst @ [name_of ?src])
                        \<and> fs2 = put d' (Some x) (put ?src None fs1))" by simp
      then show ?thesis
      proof
        assume "fs2 = fs1"
        with k1 e show ?thesis by simp
      next
        assume "\<exists>x d'. (d' = ?dst \<or> d' = ?dst @ [name_of ?src])
                        \<and> fs2 = put d' (Some x) (put ?src None fs1)"
        then obtain x d' where d': "d' = ?dst \<or> d' = ?dst @ [name_of ?src]"
          and fs2: "fs2 = put d' (Some x) (put ?src None fs1)" by blast
        have l1: "length S < length ?src" using assms(2) by simp
        have l2: "length S < length d'" using assms(2) d' by auto
        from far_put_keeps [OF far_put_keeps [OF k1 l1] l2] fs2 e show ?thesis by simp
      qed
    qed
  qed
qed

lemma mkdir_existing:
  assumes "plain_path p" and "node_at n p = Some (Dir es)" and "p \<noteq> []"
  shows "mkdir_parents True p n = (n, None)"
proof -
  from assms(2,3) obtain es' where par: "node_at n (butlast p) = Some (Dir es')"
    using node_at_child_Dir [of n "butlast p" "last p" "[]"] by auto
  have w: "walk n [] (butlast p) = Inr (butlast p)"
    using walk_existing [OF plain_path_butlast [OF assms(1)], of n "[]"] par by simp
  have "os_mkdir p n = Inl FileExistsError"
    using w par assms(2,3) plain_path_not_special [OF assms(1,3)]
    by (simp add: os_mkdir_def parent_dir_def)
  moreover have "is_dir n p" using assms(1,2) is_dir_plain by blast
  ultimately show ?thesis by (subst mkdir_parents.simps) simp
qed

text \<open>
  What the collision check does achieve: when the destination group (another group than
  the source's) holds an entry of the source's name, a successful move answers with the
  suffixed name, and the entry that was in the way is left as it was.
\<close>

lemma move_image_collision_suffix:
  assumes pp: "plain_path proj" and hx: "uuid4_hex uuid"
    and ps: "payload ''src'' = Some src" and pd: "payload ''dest_person'' = Some dest"
    and pu: "plain_uri src" and l: "5 \<le> length (split CHR ''/'' src)" and pl: "plain_name dest"
    and other: "split CHR ''/'' src ! 3 \<noteq> dest"
    and coll: "node_at fs (TEMP_ROOT proj @ [split CHR ''/'' src ! 2, dest, last (split CHR ''/'' src)])
                 = Some x"
    and se: "splitext (last (split CHR ''/'' src)) = (base, ext)"
    and ok: "move_image proj uuid payload fs = (fs', Inr new_web)"
  shows "new_web = ''/temp/'' @ split CHR ''/'' src ! 2 @ ''/'' @ dest @ ''/''
                     @ base @ ''_'' @ take 6 uuid @ ext"
    and "node_at fs' (TEMP_ROOT proj @ [split CHR ''/'' src ! 2, dest, last (split CHR ''/'' src)])
           = Some x"
proof -
  let ?parts = "split CHR ''/'' src"
  let ?T = "TEMP_ROOT proj"
  from uri_path_plain [OF pu l, of proj] obtain s g f where
      n: "plain_name s" "plain_name g" "plain_name f"
    and s: "s = ?parts ! 2" and f: "f = last ?parts"
    and j: "join (join (join ?T (?parts ! 2)) (?parts ! 3)) (last ?parts) = ?T @ [s, g, f]"
    by blast
  have g: "g = ?parts ! 3"
  proof -
    from pu l have "plain_name (?parts ! 3)" by (auto simp: plain_uri_def Let_def)
    with n s f j show ?thesis by (simp add: join_plain)
  qed
  let ?src = "?T @ [s, g, f]" and ?df = "?T @ [s, dest]"
  let ?sfx = "base @ ''_'' @ take 6 uuid @ ext"
  let ?C = "?T @ [s, dest, f]"
  have jd: "join (join ?T (?parts ! 2)) dest = ?df" using n pl s by (simp add: join_plain)
  have psf: "plain_name ?sfx" using suffixed_plain [OF n(3) hx] se f by simp
  have jf: "join ?df f = ?C" "join ?df ?sfx = ?df @ [?sfx]"
    using n(3) psf by (simp_all add: join_plain)
  have pT: "plain_path ?T" using plain_roots(1) [OF pp] .
  have pdf: "plain_path ?df" and pC: "plain_path ?C" and psrc: "plain_path ?src"
    and pdst: "plain_path (?df @ [?sfx])"
    using pT n pl psf by (simp_all add: plain_path_def)
  from coll s f have cC: "node_at fs ?C = Some x" by simp
  then obtain es where dd: "node_at fs ?df = Some (Dir es)"
    using node_at_child_Dir [of fs ?df f "[]"] by auto
  have m: "mkdir_parents True ?df fs = (fs, None)" using mkdir_existing [OF pdf dd] by simp
  have exC: "exists fs ?C" using cC exists_plain [OF pC] by simp
  have fe: "f = base @ ext" using splitext_append se f by simp
  have len6: "length (take 6 uuid) = 6" using hx by (simp add: uuid4_hex_def)
  have ne: "?sfx \<noteq> f"
  proof
    assume "?sfx = f"
    then have "length ?sfx = length f" by simp
    with fe len6 show False by simp
  qed
  from ok ps pd l j jd m exC jf se s f
  have mv: "shutil_move ?src (?df @ [?sfx]) fs = Inr fs'"
    and nw: "new_web = ''/temp/'' @ s @ ''/'' @ dest @ ''/'' @ name_of (?df @ [?sfx])"
    by (auto simp: move_image_def Let_def split: if_splits sum.splits)
  from nw s show "new_web = ''/temp/'' @ ?parts ! 2 @ ''/'' @ dest @ ''/'' @ ?sfx"
    by (simp add: name_of_def)
  from shutil_move_put [OF psrc pdst _ mv]
  have "fs' = fs \<or> (\<exists>y d'. (d' = ?df @ [?sfx] \<or> d' = (?df @ [?sfx]) @ [name_of ?src])
                        \<and> fs' = put d' (Some y) (put ?src None fs))" by simp
  then have "node_at fs' ?C = Some x"
  proof
    assume "fs' = fs"
    with cC show ?thesis by simp
  next
    assume "\<exists>y d'. (d' = ?df @ [?sfx] \<or> d' = (?df @ [?sfx]) @ [name_of ?src])
                        \<and> fs' = put d' (Some y) (put ?src None fs)"
    then obtain y d' where d': "d' = ?df @ [?sfx] \<or> d' = (?df @ [?sfx]) @ [name_of ?src]"
      and fs': "fs' = put d' (Some y) (put ?src None fs)" by blast
    have a1: "\<not> prefix ?src ?C" "\<not> prefix ?C ?src" using other g by simp_all
    have a2: "\<not> prefix d' ?C" "\<not> prefix ?C d'" using d' ne by auto
    from fs' a1 a2 cC show ?thesis by (simp add: node_at_put_other)
  qed
  with s f show "node_at fs' (?T @ [?parts ! 2, dest, last ?parts]) = Some x" by simp
qed

subsection \<open>One correction\<close>

lemma apply_correction_keeps_snapshot:
  assumes "plain_path proj" and "addresses_plain cr"
    and "node_at fs (TEMP_ROOT proj @ [session_id, ''annotation.json'']) = Some (File c)"
  shows "node_at (apply_correction proj fs cr) (TEMP_ROOT proj @ [session_id, ''annotation.json''])
           = Some (File c)"
proof (cases cr)
  case (AddPerson payload)
  with assms(3) show ?thesis by (simp add: add_person_keeps_file)
next
  case (MoveImage uuid payload)
  with assms move_image_keeps_file [OF assms(3), of proj uuid payload] show ?thesis by simp
next
  case (DeleteImage payload)
  with assms delete_image_keeps_file [OF assms(3), of proj payload] show ?thesis by simp
next
  case (RenamePerson payload)
  with assms rename_person_keeps_file [OF assms(3), of payload] show ?thesis by simp
qed

subsection \<open>Path traversal\<close>

text \<open>
  C1 (the operations reject every path that leaves the session's subtree, and touch
  nothing outside the temporary root). No handler calls \<open>safe_temp_session_path\<close> or
  checks its paths in any other way. On the example installation, \<open>delete_image\<close> with
  the URI \<open>/temp/../static/app.js\<close> answers with success and removes the file
  \<open>annotation-frontend/static/app.js\<close>, which lies outside the temporary root; the
  helper would have refused the session component \<open>..\<close> of that URI. In the same way
  \<open>move_image\<close> with the destination group \<open>../../static\<close> moves a crop out of the
  temporary root, and \<open>rename_person\<close> and \<open>add_person\<close> with the session \<open>..\<close> rename and
  create directories beside it.
\<close>

theorem corrections_leave_temp_root:
  "snd (delete_image ex_proj [''path'' \<mapsto> ''/temp/../static/app.js''] ex_fs)
     = Inr ''/temp/../static/app.js''
   \<and> is_file ex_fs (FRONTEND_DIR ex_proj @ [''static'', ''app.js''])
   \<and> \<not> prefix (TEMP_ROOT ex_proj) (FRONTEND_DIR ex_proj @ [''static'', ''app.js''])
   \<and> \<not> exists (fst (delete_image ex_proj [''path'' \<mapsto> ''/temp/../static/app.js''] ex_fs))
         (FRONTEND_DIR ex_proj @ [''static'', ''app.js''])
   \<and> safe_temp_session_path ex_proj ''..'' = Inl (HTTPException 400 ''Invalid session path'')
   \<and> snd (move_image ex_proj ex_uuid
        [''src'' \<mapsto> ''/temp/'' @ ex_sid @ ''/person_1/f0_id1.jpg'', ''dest_person'' \<mapsto> ''../../static'']
        ex_fs) = Inr (''/temp/'' @ ex_sid @ ''/../../static/f0_id1.jpg'')
   \<and> is_file (fst (move_image ex_proj ex_uuid
        [''src'' \<mapsto> ''/temp/'' @ ex_sid @ ''/person_1/f0_id1.jpg'', ''dest_person'' \<mapsto> ''../../static'']
        ex_fs)) (FRONTEND_DIR ex_proj @ [''static'', ''f0_id1.jpg''])
   \<and> snd (rename_person ex_proj
        [''session_id'' \<mapsto> ''..'', ''old_name'' \<mapsto> ''static'', ''new_name'' \<mapsto> ''renamed''] ex_fs)
       = Inr (''static'', ''renamed'')
   \<and> is_dir (fst (rename_person ex_proj
        [''session_id'' \<mapsto> ''..'', ''old_name'' \<mapsto> ''static'', ''new_name'' \<mapsto> ''renamed''] ex_fs))
        (FRONTEND_DIR ex_proj @ [''renamed''])
   \<and> snd (add_person ex_proj [''session_id'' \<mapsto> ''..'', ''name'' \<mapsto> ''outside''] ex_fs)
       = Inr ''outside''
   \<and> is_dir (fst (add_person ex_proj [''session_id'' \<mapsto> ''..'', ''name'' \<mapsto> ''outside''] ex_fs))
        (FRONTEND_DIR ex_proj @ [''outside''])"
  by code_simp

subsection \<open>Moving an image\<close>

text \<open>
  C2 (a move whose source file does not exist fails with Not-Found and changes nothing).
  For a request that passes the checks on its fields (both fields present and not empty,
  a URI that starts with \<open>/temp/\<close> and has at least five parts), if the file that the URI
  names does not exist, the handler raises the 404 ``Source file not found'' and the file
  system is the one it was given; so no entry, the destination group included, comes
  into existence.
\<close>

theorem move_image_source_absent:
  assumes "payload ''src'' = Some src" and "payload ''dest_person'' = Some dest_person"
    and "src \<noteq> []" and "dest_person \<noteq> []"
    and "startswith src ''/temp/''" and "5 \<le> length (split CHR ''/'' src)"
    and "\<not> exists fs (uri_path proj src)"
  shows "move_image proj uuid payload fs = (fs, Inl (HTTPException 404 ''Source file not found''))
    \<and> (\<forall>d. exists (fst (move_image proj uuid payload fs)) d = exists fs d)"
proof -
  have "move_image proj uuid payload fs = (fs, Inl (HTTPException 404 ''Source file not found''))"
    using assms by (simp add: move_image_def uri_path_def Let_def)
  then show ?thesis by simp
qed

theorem move_image_source_absent_witness:
  "\<not> exists ex_fs (uri_path ex_proj (''/temp/'' @ ex_sid @ ''/person_1/missing.jpg''))
   \<and> \<not> exists ex_fs (join (join (TEMP_ROOT ex_proj) ex_sid) ''person_9'')
   \<and> move_image ex_proj ex_uuid
        [''src'' \<mapsto> ''/temp/'' @ ex_sid @ ''/person_1/missing.jpg'', ''dest_person'' \<mapsto> ''person_9'']
        ex_fs
      = (ex_fs, Inl (HTTPException 404 ''Source file not found''))"
proof -
  let ?src = "''/temp/'' @ ex_sid @ ''/person_1/missing.jpg''"
  let ?pl = "[''src'' \<mapsto> ?src, ''dest_person'' \<mapsto> ''person_9'']"
  have h1: "?pl ''src'' = Some ?src" by simp
  have h2: "?pl ''dest_person'' = Some ''person_9''" by simp
  have h3: "?src \<noteq> []" by simp
  have h4: "''person_9'' \<noteq> []" by simp
  have h5: "startswith ?src ''/temp/''" by code_simp
  have h6: "5 \<le> length (split CHR ''/'' ?src)" by code_simp
  have h7: "\<not> exists ex_fs (uri_path ex_proj ?src)" by code_simp
  have h8: "\<not> exists ex_fs (join (join (TEMP_ROOT ex_proj) ex_sid) ''person_9'')" by code_simp
  from move_image_source_absent [OF h1 h2 h3 h4 h5 h6 h7, of ex_uuid] h7 h8
  show ?thesis by blast
qed

text \<open>
  C3 (a move never overwrites a file of the destination group). When the destination
  holds a file of the source's name, the handler picks the name with the six-digit
  suffix and moves the source there without looking whether that name is taken. On the
  example installation the second group holds \<open>f0_id1.jpg\<close> and \<open>f0_id1_000000.jpg\<close>; with
  a UUID that starts with \<open>000000\<close>, moving \<open>f0_id1.jpg\<close> of the first group there succeeds
  and replaces the content of \<open>f0_id1_000000.jpg\<close>.
\<close>

theorem move_image_overwrites_suffixed_name:
  "uuid4_hex ex_uuid
   \<and> node_at ex_fs (TEMP_ROOT ex_proj @ [ex_sid, ''person_2'', ''f0_id1_000000.jpg''])
       = Some (File (Crop ''c'' 0 0 30 30))
   \<and> snd (move_image ex_proj ex_uuid
        [''src'' \<mapsto> ''/temp/'' @ ex_sid @ ''/person_1/f0_id1.jpg'', ''dest_person'' \<mapsto> ''person_2'']
        ex_fs)
       = Inr (''/temp/'' @ ex_sid @ ''/person_2/f0_id1_000000.jpg'')
   \<and> node_at (fst (move_image ex_proj ex_uuid
        [''src'' \<mapsto> ''/temp/'' @ ex_sid @ ''/person_1/f0_id1.jpg'', ''dest_person'' \<mapsto> ''person_2'']
        ex_fs)) (TEMP_ROOT ex_proj @ [ex_sid, ''person_2'', ''f0_id1_000000.jpg''])
       = Some (File (Crop ''a'' 0 0 30 30))"
  by code_simp

subsection \<open>Creating a group\<close>




text \<open>
  C9 (an explicit group name has its whitespace replaced by underscores). The code
  strips the name first and then replaces the space character only: on the example
  installation the name \<open>" a"\<close> creates the group \<open>a\<close>, not \<open>_a\<close>, and a name with a TAB in
  it keeps the TAB.
\<close>

theorem add_person_name_counterexample:
  "snd (add_person ex_proj [''session_id'' \<mapsto> ex_sid, ''name'' \<mapsto> '' a''] ex_fs) = Inr ''a''
   \<and> ''a'' \<noteq> whitespace_to_underscore '' a''
   \<and> snd (add_person ex_proj [''session_id'' \<mapsto> ex_sid, ''name'' \<mapsto> [CHR ''a'', CHR 0x09, CHR ''b'']] ex_fs)
       = Inr [CHR ''a'', CHR 0x09, CHR ''b'']
   \<and> [CHR ''a'', CHR 0x09, CHR ''b''] \<noteq> whitespace_to_underscore [CHR ''a'', CHR 0x09, CHR ''b'']"
  by code_simp

text \<open>
  C9 as amended: when a create-group request with an explicit, non-empty name succeeds,
  the name in the answer is the given name without the white space at its two ends (the
  white space of \<open>str.strip\<close>, the no-break space included) and with every space (code
  point 32) that is left replaced by an underscore, and the session directory joined
  with that name is a directory afterwards.
\<close>

theorem add_person_explicit_name:
  assumes "payload ''session_id'' = Some session_id" and "payload ''name'' = Some name"
    and "name \<noteq> []" and "add_person proj payload fs = (fs', Inr new_name)"
  shows "new_name = replace_space (strip name)
    \<and> is_dir fs' (join (join (TEMP_ROOT proj) session_id) new_name)"
proof -
  let ?sd = "join (TEMP_ROOT proj) session_id"
  let ?new = "replace_space (strip name)"
  from assms have m: "mkdir_parents False (join ?sd ?new) fs = (fs', None)" and n: "new_name = ?new"
    by (auto simp: add_person_def Let_def falsy_def split: if_splits prod.splits option.splits)
  from mkdir_parents_is_dir [OF m] n show ?thesis by simp
qed

theorem add_person_explicit_name_witness:
  "snd (add_person ex_proj [''session_id'' \<mapsto> ex_sid, ''name'' \<mapsto> CHR 0xA0 # '' new group ''] ex_fs)
     = Inr ''new_group''
   \<and> is_dir (fst (add_person ex_proj
                    [''session_id'' \<mapsto> ex_sid, ''name'' \<mapsto> CHR 0xA0 # '' new group ''] ex_fs))
        (join (join (TEMP_ROOT ex_proj) ex_sid) ''new_group'')"
proof -
  let ?name = "CHR 0xA0 # '' new group ''"
  let ?pl = "[''session_id'' \<mapsto> ex_sid, ''name'' \<mapsto> ?name]"
  obtain fs' r where a: "add_person ex_proj ?pl ex_fs = (fs', r)" by (cases "add_person ex_proj ?pl ex_fs")
  have r: "snd (add_person ex_proj ?pl ex_fs) = Inr ''new_group''" by code_simp
  with a have a': "add_person ex_proj ?pl ex_fs = (fs', Inr ''new_group'')" by simp
  have h1: "?pl ''session_id'' = Some ex_sid" by simp
  have h2: "?pl ''name'' = Some ?name" by simp
  have h3: "?name \<noteq> []" by simp
  from add_person_explicit_name [OF h1 h2 h3 a']
  have "is_dir fs' (join (join (TEMP_ROOT ex_proj) ex_sid) ''new_group'')" by blast
  then have "is_dir (fst (add_person ex_proj ?pl ex_fs)) (join (join (TEMP_ROOT ex_proj) ex_sid) ''new_group'')"
    by (simp only: a' fst_conv)
  with r show ?thesis by blast
qed

subsection \<open>Promotion\<close>

lemma confirm_session_missing:
  assumes "payload ''session_id'' = Some session_id" and "session_id \<noteq> []"
    and "\<not> exists fs (join (TEMP_ROOT proj) session_id)"
  shows "confirm_session proj payload fs = (fs, Inl (HTTPException 404 ''Session not found''))"
  using assms by (simp add: confirm_session_def Let_def)

lemma confirm_session_success:
  assumes pp: "plain_path proj" and pl: "payload ''session_id'' = Some session_id"
    and ps: "plain_name session_id"
    and ok: "confirm_session proj payload fs = (fs', Inr r)"
  obtains n where "1 \<le> n" and "r = ''/persons/database_'' @ str_int n"
    and "\<not> is_dir fs (join (PERSONS_DB proj) (''database_'' @ str_int n))"
    and "node_at fs' (PERSONS_DB proj @ [''database_'' @ str_int n])
           = node_at fs (TEMP_ROOT proj @ [session_id])"
    and "node_at fs' (TEMP_ROOT proj @ [session_id]) = None"
proof -
  let ?src = "TEMP_ROOT proj @ [session_id]"
  let ?P = "PERSONS_DB proj"
  have js: "join (TEMP_ROOT proj) session_id = ?src" using ps by (rule join_plain)
  have psrc: "plain_path ?src" using pp ps plain_roots(1) [OF pp] by (simp add: plain_path_def)
  have pP: "plain_path ?P" using plain_roots(2) [OF pp] .
  from ok pl js obtain fs1 es where
      m: "mkdir_parents True ?P fs = (fs1, None)"
    and it: "iterdir fs1 ?P = Inr es"
    and mv: "shutil_move ?src
               (join ?P (''database_'' @ str_int (next_database_index (map fst (filter (\<lambda>(d, m). is_Dir m) es)))))
               fs1 = Inr fs'"
    and r: "r = ''/persons/'' @ name_of
               (join ?P (''database_'' @ str_int (next_database_index (map fst (filter (\<lambda>(d, m). is_Dir m) es)))))"
    by (auto simp: confirm_session_def Let_def split: if_splits prod.splits option.splits sum.splits)
  let ?n = "next_database_index (map fst (filter (\<lambda>(d, m). is_Dir m) es))"
  let ?dn = "''database_'' @ str_int ?n"
  let ?dest = "?P @ [?dn]"
  have pdn: "plain_name ?dn"
    using plain_name_prefixed [of "str_int ?n" "''database_''"] str_int_no_slash by simp
  then have jd: "join ?P ?dn = ?dest" by (rule join_plain)
  have pdest: "plain_path ?dest" using pP pdn by (simp add: plain_path_def)
  have n1: "1 \<le> ?n" using next_database_index_ge [of 1] by (simp add: next_database_index_def)
  have Pdir: "node_at fs1 ?P = Some (Dir es)"
    using it stat_plain [OF pP, of fs1] by (auto simp: iterdir_def split: sum.splits node.splits)
  have nd1: "\<not> is_dir fs1 ?dest"
  proof
    assume "is_dir fs1 ?dest"
    then obtain x where "node_at fs1 ?dest = Some (Dir x)" using is_dir_plain [OF pdest] by blast
    then have "map_of es ?dn = Some (Dir x)" using Pdir by (auto simp: node_at_append split: option.splits)
    then have "(?dn, Dir x) \<in> set es" by (rule map_of_SomeD)
    then show False by (rule database_name_fresh)
  qed
  have fr_dest: "node_at fs1 ?dest = node_at fs ?dest"
    using mkdir_parents_frame [OF pP _ m, of ?dest] by simp
  have fr_src: "node_at fs1 ?src = node_at fs ?src"
    using mkdir_parents_frame [OF pP _ m, of ?src] roots_apart(1) [of proj session_id "[]" "[]"] by simp
  have nd: "\<not> is_dir fs (join ?P ?dn)"
    using nd1 fr_dest is_dir_plain [OF pdest] jd by simp
  have ne: "?src \<noteq> ?dest" using roots_apart(3) by blast
  from mv jd have mv': "shutil_move ?src ?dest fs1 = Inr fs'" by simp
  from shutil_move_plain [OF psrc pdest mv' ne nd1] obtain s es' where
      s: "node_at fs1 ?src = Some s" and f: "fs' = put ?dest (Some s) (put ?src None fs1)"
    and inc: "\<not> prefix ?src ?dest" "\<not> prefix ?dest ?src"
    and par: "node_at fs1 (butlast ?dest) = Some (Dir es')"
    by blast
  from moved_nodes [OF s f inc _ _ par] have gone: "node_at fs' ?src = None"
    and there: "node_at fs' ?dest = Some s" by simp_all
  have "r = ''/persons/database_'' @ str_int ?n" using r jd by (simp add: name_of_def)
  with n1 nd there s fr_src gone that show ?thesis by metis
qed

text \<open>
  C5 (promotion). A request whose session does not exist fails with the 404 ``Session not
  found''. For a session id that is a single plain component, a successful promotion
  leaves nothing at the session's place in the temporary store, so the same request fails
  with that 404 from then on; the answer names \<open>database_<n>\<close> with \<open>n \<ge> 1\<close>, which was not
  a directory of the permanent store before, which is not the session id (a UUID in
  hexadecimal), and which holds what the session held.
\<close>

theorem confirm_session_promotes:
  assumes "plain_path proj" and "payload ''session_id'' = Some session_id" and "session_id \<noteq> []"
  shows "(\<not> exists fs (join (TEMP_ROOT proj) session_id) \<longrightarrow>
            confirm_session proj payload fs = (fs, Inl (HTTPException 404 ''Session not found'')))
       \<and> (plain_name session_id \<longrightarrow>
            (\<forall>fs' r. confirm_session proj payload fs = (fs', Inr r) \<longrightarrow>
               \<not> exists fs' (join (TEMP_ROOT proj) session_id)
               \<and> confirm_session proj payload fs' = (fs', Inl (HTTPException 404 ''Session not found''))
               \<and> (\<exists>n\<ge>1. r = ''/persons/database_'' @ str_int n
                     \<and> (uuid4_hex session_id \<longrightarrow> ''database_'' @ str_int n \<noteq> session_id)
                     \<and> \<not> is_dir fs (join (PERSONS_DB proj) (''database_'' @ str_int n))
                     \<and> node_at fs' (PERSONS_DB proj @ [''database_'' @ str_int n])
                         = node_at fs (TEMP_ROOT proj @ [session_id]))))"
proof (intro conjI impI allI)
  assume "\<not> exists fs (join (TEMP_ROOT proj) session_id)"
  with assms(2,3) show "confirm_session proj payload fs = (fs, Inl (HTTPException 404 ''Session not found''))"
    by (rule confirm_session_missing)
next
  fix fs' r
  assume ps: "plain_name session_id" and ok: "confirm_session proj payload fs = (fs', Inr r)"
  have js: "join (TEMP_ROOT proj) session_id = TEMP_ROOT proj @ [session_id]" using ps by (rule join_plain)
  have psrc: "plain_path (TEMP_ROOT proj @ [session_id])"
    using assms(1) ps plain_roots(1) [OF assms(1)] by (simp add: plain_path_def)
  from confirm_session_success [OF assms(1,2) ps ok] obtain n where n: "1 \<le> n"
    "r = ''/persons/database_'' @ str_int n"
    "\<not> is_dir fs (join (PERSONS_DB proj) (''database_'' @ str_int n))"
    "node_at fs' (PERSONS_DB proj @ [''database_'' @ str_int n]) = node_at fs (TEMP_ROOT proj @ [session_id])"
    "node_at fs' (TEMP_ROOT proj @ [session_id]) = None"
    by blast
  from n(5) show gone: "\<not> exists fs' (join (TEMP_ROOT proj) session_id)"
    using exists_plain [OF psrc, of fs'] js by simp
  from assms(2,3) gone
  show "confirm_session proj payload fs' = (fs', Inl (HTTPException 404 ''Session not found''))"
    by (rule confirm_session_missing)
  from n uuid4_hex_not_database [of session_id "str_int n"]
  show "\<exists>n\<ge>1. r = ''/persons/database_'' @ str_int n
          \<and> (uuid4_hex session_id \<longrightarrow> ''database_'' @ str_int n \<noteq> session_id)
          \<and> \<not> is_dir fs (join (PERSONS_DB proj) (''database_'' @ str_int n))
          \<and> node_at fs' (PERSONS_DB proj @ [''database_'' @ str_int n])
              = node_at fs (TEMP_ROOT proj @ [session_id])"
    by blast
qed

theorem confirm_session_promotes_witness:
  "plain_path ex_proj \<and> uuid4_hex ex_sid
   \<and> exists ex_fs (join (TEMP_ROOT ex_proj) ex_sid)
   \<and> snd (confirm_session ex_proj [''session_id'' \<mapsto> ex_sid] ex_fs) = Inr ''/persons/database_1''
   \<and> \<not> exists (fst (confirm_session ex_proj [''session_id'' \<mapsto> ex_sid] ex_fs)) (join (TEMP_ROOT ex_proj) ex_sid)
   \<and> snd (confirm_session ex_proj [''session_id'' \<mapsto> ex_sid]
            (fst (confirm_session ex_proj [''session_id'' \<mapsto> ex_sid] ex_fs)))
       = Inl (HTTPException 404 ''Session not found'')
   \<and> node_at (fst (confirm_session ex_proj [''session_id'' \<mapsto> ex_sid] ex_fs))
        (PERSONS_DB ex_proj @ [''database_1'']) = Some ex_session
   \<and> snd (confirm_session ex_proj [''session_id'' \<mapsto> ''0000''] ex_fs)
       = Inl (HTTPException 404 ''Session not found'')"
proof -
  let ?pl = "[''session_id'' \<mapsto> ex_sid]"
  let ?none = "[''session_id'' \<mapsto> ''0000'']"
  have r: "snd (confirm_session ex_proj ?pl ex_fs) = Inr ''/persons/database_1''" by code_simp
  have h1: "plain_path ex_proj" by code_simp
  have h2: "?pl ''session_id'' = Some ex_sid" by simp
  have h3: "ex_sid \<noteq> []" by code_simp
  have h4: "plain_name ex_sid" by code_simp
  have h5: "uuid4_hex ex_sid" by code_simp
  have h6: "exists ex_fs (join (TEMP_ROOT ex_proj) ex_sid)" by code_simp
  have h7: "node_at (fst (confirm_session ex_proj ?pl ex_fs)) (PERSONS_DB ex_proj @ [''database_1''])
              = Some ex_session" by code_simp
  have g2: "?none ''session_id'' = Some ''0000''" by simp
  have g3: "''0000'' \<noteq> []" by simp
  have g4: "\<not> exists ex_fs (join (TEMP_ROOT ex_proj) ''0000'')" by code_simp
  from confirm_session_promotes [of ex_proj ?none "''0000''" ex_fs, OF h1 g2 g3] g4
  have miss: "snd (confirm_session ex_proj ?none ex_fs) = Inl (HTTPException 404 ''Session not found'')"
    by simp
  define fs' where "fs' = fst (confirm_session ex_proj ?pl ex_fs)"
  have a: "confirm_session ex_proj ?pl ex_fs = (fs', Inr ''/persons/database_1'')"
    unfolding fs'_def using r by (metis prod.collapse)
  from confirm_session_promotes [of ex_proj ?pl ex_sid ex_fs, OF h1 h2 h3] h4 a
  have "\<not> exists fs' (join (TEMP_ROOT ex_proj) ex_sid)
     \<and> confirm_session ex_proj ?pl fs' = (fs', Inl (HTTPException 404 ''Session not found''))"
    by blast
  then have "\<not> exists (fst (confirm_session ex_proj ?pl ex_fs)) (join (TEMP_ROOT ex_proj) ex_sid)
     \<and> snd (confirm_session ex_proj ?pl (fst (confirm_session ex_proj ?pl ex_fs)))
         = Inl (HTTPException 404 ''Session not found'')"
    unfolding fs'_def by simp
  with r h1 h5 h6 h7 miss show ?thesis by blast
qed

subsection \<open>Listing\<close>

lemma set_alist_update: "(a, b) \<in> set (AList.update k v al) \<Longrightarrow> (a, b) = (k, v) \<or> (a, b) \<in> set al"
  by (induction al) (auto split: if_splits)

lemma listing_fold:
  assumes "(g, imgs) \<in> set (foldl
              (\<lambda>out (name, person_folder).
                 (case person_folder of
                    File d \<Rightarrow> out
                  | Dir fs' \<Rightarrow> AList.update name (F name fs') out))
              acc xs)"
  shows "(g, imgs) \<in> set acc \<or> (\<exists>gs. (g, Dir gs) \<in> set xs \<and> imgs = F g gs)"
  using assms
proof (induction xs arbitrary: acc)
  case Nil
  then show ?case by simp
next
  case (Cons x xs)
  obtain name m where x: "x = (name, m)" by (cases x)
  show ?case
  proof (cases m)
    case (File d)
    with Cons.prems x Cons.IH [of acc] show ?thesis by auto
  next
    case (Dir gs)
    with Cons.prems x Cons.IH [of "AList.update name (F name gs) acc"]
    show ?thesis by (auto dest: set_alist_update)
  qed
qed

text \<open>
  C10 (what the listing of a session holds). Every group of the listing is a directory
  entry of the session folder, and every image listed under it is the URI
  \<open>/temp/<session>/<group>/<file>\<close> of an entry of that directory that is a regular file.
  So a file that lies directly in the session folder (the snapshot, a dumped frame) is
  neither a group nor an image, no directory is listed as an image, and no URI of the
  listing is \<open>/temp/<session>/<name>\<close> for a name without a slash.
\<close>

theorem list_session_persons_only_group_files:
  assumes "list_session_persons proj fs session_id = Inr out"
    and "(g, imgs) \<in> set out" and "u \<in> set imgs"
  shows "\<exists>es gs f d.
           stat fs (join (TEMP_ROOT proj) session_id) = Inr (Dir es)
           \<and> (g, Dir gs) \<in> set es \<and> (f, File d) \<in> set gs
           \<and> u = ''/temp/'' @ session_id @ ''/'' @ g @ ''/'' @ f
           \<and> (\<forall>x. CHR ''/'' \<notin> set x \<longrightarrow> u \<noteq> ''/temp/'' @ session_id @ ''/'' @ x)"
proof -
  let ?F = "\<lambda>name fs'. map (\<lambda>(f, m). ''/temp/'' @ session_id @ ''/'' @ name @ ''/'' @ f)
                               (filter (\<lambda>(f, m). is_File m) (sort_key fst fs'))"
  from assms(1) obtain es where st: "stat fs (join (TEMP_ROOT proj) session_id) = Inr (Dir es)"
    and out: "out = foldl (\<lambda>out (name, person_folder).
                 (case person_folder of File d \<Rightarrow> out
                  | Dir fs' \<Rightarrow> AList.update name (?F name fs') out)) [] (sort_key fst es)"
    by (auto simp: list_session_persons_def iterdir_def Let_def split: if_splits sum.splits node.splits)
  from assms(2) out listing_fold [of g imgs ?F "[]" "sort_key fst es"]
  obtain gs where g: "(g, Dir gs) \<in> set es" and i: "imgs = ?F g gs" by auto
  from assms(3) i obtain f m where fm: "(f, m) \<in> set gs" "is_File m"
    and u: "u = ''/temp/'' @ session_id @ ''/'' @ g @ ''/'' @ f" by auto
  from fm(2) obtain d where "m = File d" by (cases m) auto
  with st g fm u show ?thesis by auto
qed

theorem list_session_persons_only_group_files_witness:
  "list_session_persons ex_proj ex_fs ex_sid
     = Inr [(''person_1'', [''/temp/'' @ ex_sid @ ''/person_1/f0_id1.jpg'']),
            (''person_2'', [''/temp/'' @ ex_sid @ ''/person_2/f0_id1.jpg'',
                            ''/temp/'' @ ex_sid @ ''/person_2/f0_id1_000000.jpg''])]
   \<and> is_file ex_fs (join (join (TEMP_ROOT ex_proj) ex_sid) ''annotation.json'')
   \<and> (\<exists>es gs f d.
           stat ex_fs (join (TEMP_ROOT ex_proj) ex_sid) = Inr (Dir es)
           \<and> (''person_1'', Dir gs) \<in> set es \<and> (f, File d) \<in> set gs
           \<and> ''/temp/'' @ ex_sid @ ''/person_1/f0_id1.jpg'' = ''/temp/'' @ ex_sid @ ''/'' @ ''person_1'' @ ''/'' @ f)"
proof -
  let ?out = "[(''person_1'', [''/temp/'' @ ex_sid @ ''/person_1/f0_id1.jpg'']),
            (''person_2'', [''/temp/'' @ ex_sid @ ''/person_2/f0_id1.jpg'',
                            ''/temp/'' @ ex_sid @ ''/person_2/f0_id1_000000.jpg''])]"
  have l: "list_session_persons ex_proj ex_fs ex_sid = Inr ?out" by code_simp
  have s: "is_file ex_fs (join (join (TEMP_ROOT ex_proj) ex_sid) ''annotation.json'')" by code_simp
  have m1: "(''person_1'', [''/temp/'' @ ex_sid @ ''/person_1/f0_id1.jpg'']) \<in> set ?out" by simp
  have m2: "''/temp/'' @ ex_sid @ ''/person_1/f0_id1.jpg'' \<in> set [''/temp/'' @ ex_sid @ ''/person_1/f0_id1.jpg'']"
    by simp
  from list_session_persons_only_group_files [OF l m1 m2] l s show ?thesis by blast
qed

subsection \<open>Ingestion\<close>

text \<open>
  C7 (a fatal error of the pipeline removes the session directory before it is
  surfaced). Whenever \<open>upload_video\<close> raises the 500 ``Processing failed'', whatever the
  detector delivered before, no entry is left at the session's path in the temporary
  store.
\<close>

theorem upload_video_failure_removes_session:
  assumes "plain_path proj" and "uuid4_hex session_id"
    and "upload_video proj session_id video model fs = (fs', log, Inl (HTTPException 500 detail))"
  shows "\<not> exists fs' (join (TEMP_ROOT proj) session_id)"
proof -
  let ?st = "join (TEMP_ROOT proj) session_id"
  let ?up = "join (UPLOADS_DIR proj) (session_id @ ''.mp4'')"
  have ps: "plain_name session_id" using assms(2) by (rule uuid4_hex_plain)
  have st: "?st = TEMP_ROOT proj @ [session_id]" using ps by (rule join_plain)
  have pst: "plain_path ?st" using plain_roots(1) [OF assms(1)] ps st by (simp add: plain_path_def)
  obtain fs0 where w: "write_file ?up (Bytes video) fs = Inr fs0"
    using assms(3) write_file_error [of ?up "Bytes video" fs _ 500 detail]
    by (cases "write_file ?up (Bytes video) fs") (auto simp: upload_video_def Let_def)
  obtain fs1 x1 where m: "mkdir_parents True ?st fs0 = (fs1, x1)"
    by (cases "mkdir_parents True ?st fs0")
  have x1: "x1 = None"
    using assms(3) w m mkdir_parents_error [of True ?st fs0 fs1 _ 500 detail]
    by (cases x1) (auto simp: upload_video_def Let_def)
  from assms(3) w m x1 obtain ad where md: "model = Some ad"
    by (cases model) (auto simp: upload_video_def Let_def)
  obtain fs2 pm lg x2 where pv: "process_video proj session_id ad (fs1, [], [?up]) = ((fs2, pm, lg), x2)"
    by (cases "process_video proj session_id ad (fs1, [], [?up])") auto
  from assms(3) w m x1 md pv obtain e where x2: "x2 = Some e"
    and fs': "fs' = (if exists fs2 ?st then rmtree ?st fs2 else fs2)"
    by (cases x2) (auto simp: upload_video_def Let_def)
  show ?thesis
  proof (cases "exists fs2 ?st")
    case False
    with fs' show ?thesis by simp
  next
    case True
    from mkdir_parents_is_dir [of True ?st fs0 fs1] m x1 have "is_dir fs1 ?st" by simp
    then obtain es where "node_at fs1 ?st = Some (Dir es)" using is_dir_plain [OF pst] by blast
    moreover have "keeps_dirs fs1 fs2" using process_video_fail [OF ps] pv x2 by fastforce
    ultimately obtain es' where d: "node_at fs2 ?st = Some (Dir es')" by (auto dest: keeps_dirsD)
    then have "walk fs2 [] ?st = Inr ?st" using walk_existing [OF pst, of fs2 "[]"] by simp
    with d have "rmtree ?st fs2 = put ?st None fs2" by (simp add: rmtree_def)
    with fs' True have "fs' = put ?st None fs2" by simp
    moreover have "?st \<noteq> []" using st by simp
    ultimately have "node_at fs' ?st = None" by (simp add: node_at_put_None)
    then show ?thesis using exists_plain [OF pst] by simp
  qed
qed

theorem upload_video_failure_removes_session_witness:
  "plain_path ex_proj \<and> uuid4_hex ex_uuid
   \<and> snd (snd (upload_video ex_proj ex_uuid ''video'' (Some ex_failing_model) ex_fs))
       = Inl (HTTPException 500 ''Processing failed: tracker lost'')
   \<and> fst (snd (upload_video ex_proj ex_uuid ''video'' (Some ex_failing_model) ex_fs))
       = [UPLOADS_DIR ex_proj @ [ex_uuid @ ''.mp4''],
          TEMP_ROOT ex_proj @ [ex_uuid, ''person_1'', ''f0_id1.jpg''],
          TEMP_ROOT ex_proj @ [ex_uuid, ''person_1'', ''f1_id1.jpg'']]
   \<and> \<not> exists (fst (upload_video ex_proj ex_uuid ''video'' (Some ex_failing_model) ex_fs))
         (join (TEMP_ROOT ex_proj) ex_uuid)"
proof -
  let ?r = "upload_video ex_proj ex_uuid ''video'' (Some ex_failing_model) ex_fs"
  have h1: "plain_path ex_proj" by code_simp
  have h2: "uuid4_hex ex_uuid" by code_simp
  have r: "snd (snd ?r) = Inl (HTTPException 500 ''Processing failed: tracker lost'')" by code_simp
  have l: "fst (snd ?r) = [UPLOADS_DIR ex_proj @ [ex_uuid @ ''.mp4''],
          TEMP_ROOT ex_proj @ [ex_uuid, ''person_1'', ''f0_id1.jpg''],
          TEMP_ROOT ex_proj @ [ex_uuid, ''person_1'', ''f1_id1.jpg'']]" by code_simp
  have "?r = (fst ?r, fst (snd ?r), Inl (HTTPException 500 ''Processing failed: tracker lost''))"
    using r by (metis prod.collapse)
  from upload_video_failure_removes_session [OF h1 h2 this] h1 h2 r l show ?thesis by blast
qed

subsection \<open>Degraded mode and the snapshot\<close>

text \<open>
  C8 (degraded mode, and the snapshot is written once on every success). Without a
  detector the handler returns before the pipeline: on the example installation the
  ingestion succeeds with the empty map, \<open>annotation.json\<close> is never opened for writing,
  and the new session folder holds no snapshot.
\<close>

theorem upload_video_no_snapshot_counterexample:
  "snd (snd (upload_video ex_proj ex_uuid ''video'' None ex_fs)) = Inr (ex_uuid, [])
   \<and> count_list (fst (snd (upload_video ex_proj ex_uuid ''video'' None ex_fs)))
        (join (join (TEMP_ROOT ex_proj) ex_uuid) ''annotation.json'') = 0
   \<and> is_dir (fst (upload_video ex_proj ex_uuid ''video'' None ex_fs)) (join (TEMP_ROOT ex_proj) ex_uuid)
   \<and> \<not> exists (fst (upload_video ex_proj ex_uuid ''video'' None ex_fs))
         (join (join (TEMP_ROOT ex_proj) ex_uuid) ''annotation.json'')"
  by code_simp

text \<open>
  C8 as amended. Without a detector, and with the uploads directory and the temporary
  root in place and a fresh session id, ingestion succeeds with the empty map; it creates
  the session folder and writes no snapshot. With a detector, every successful ingestion
  opens \<open>annotation.json\<close> of the session for writing exactly once, and the file holds the
  map that is returned.
\<close>

theorem upload_video_snapshot:
  assumes "plain_path proj" and "uuid4_hex session_id"
  shows "(is_dir fs (UPLOADS_DIR proj) \<and> is_dir fs (TEMP_ROOT proj)
           \<and> \<not> exists fs (join (UPLOADS_DIR proj) (session_id @ ''.mp4''))
           \<and> \<not> exists fs (join (TEMP_ROOT proj) session_id)
          \<longrightarrow> (\<exists>fs' log. upload_video proj session_id video None fs = (fs', log, Inr (session_id, []))
                 \<and> is_dir fs' (join (TEMP_ROOT proj) session_id)
                 \<and> count_list log (TEMP_ROOT proj @ [session_id, ''annotation.json'']) = 0
                 \<and> \<not> exists fs' (TEMP_ROOT proj @ [session_id, ''annotation.json''])))
       \<and> (\<forall>m fs' log sid pm.
             upload_video proj session_id video (Some m) fs = (fs', log, Inr (sid, pm)) \<longrightarrow>
               sid = session_id
               \<and> count_list log (TEMP_ROOT proj @ [session_id, ''annotation.json'']) = 1
               \<and> node_at fs' (TEMP_ROOT proj @ [session_id, ''annotation.json''])
                   = Some (File (Json (json_persons pm))))"
proof (intro conjI impI allI)
  have ps: "plain_name session_id" using assms(2) by (rule uuid4_hex_plain)
  have pann: "plain_path (TEMP_ROOT proj @ [session_id, ''annotation.json''])"
    using plain_roots(1) [OF assms(1)] ps by (simp add: plain_path_def plain_name_def)
  assume a: "is_dir fs (UPLOADS_DIR proj) \<and> is_dir fs (TEMP_ROOT proj)
           \<and> \<not> exists fs (join (UPLOADS_DIR proj) (session_id @ ''.mp4''))
           \<and> \<not> exists fs (join (TEMP_ROOT proj) session_id)"
  from a upload_video_no_model [OF assms(1) ps, of fs video] obtain fs' where
      u: "upload_video proj session_id video None fs
         = (fs', [UPLOADS_DIR proj @ [session_id @ ''.mp4'']], Inr (session_id, []))"
    and d: "is_dir fs' (join (TEMP_ROOT proj) session_id)"
    and n: "node_at fs' (TEMP_ROOT proj @ [session_id, ''annotation.json'']) = None"
    by blast
  have c: "count_list [UPLOADS_DIR proj @ [session_id @ ''.mp4'']]
             (TEMP_ROOT proj @ [session_id, ''annotation.json'']) = 0"
    using roots_apart_uploads(3) [of proj "[session_id @ ''.mp4'']" "[session_id, ''annotation.json'']"]
    by simp
  from n have "\<not> exists fs' (TEMP_ROOT proj @ [session_id, ''annotation.json''])"
    using exists_plain [OF pann] by simp
  with u d c
  show "\<exists>fs' log. upload_video proj session_id video None fs = (fs', log, Inr (session_id, []))
          \<and> is_dir fs' (join (TEMP_ROOT proj) session_id)
          \<and> count_list log (TEMP_ROOT proj @ [session_id, ''annotation.json'']) = 0
          \<and> \<not> exists fs' (TEMP_ROOT proj @ [session_id, ''annotation.json''])"
    by blast
next
  fix m fs' log sid pm
  assume u: "upload_video proj session_id video (Some m) fs = (fs', log, Inr (sid, pm))"
  have ps: "plain_name session_id" using assms(2) by (rule uuid4_hex_plain)
  let ?up = "join (UPLOADS_DIR proj) (session_id @ ''.mp4'')"
  have pc: "plain_name (session_id @ ''.mp4'')" using ps by (rule plain_name_suffixed) simp_all
  have ju: "?up = UPLOADS_DIR proj @ [session_id @ ''.mp4'']" using pc by (rule join_plain)
  let ?st = "join (TEMP_ROOT proj) session_id"
  obtain fs0 where w: "write_file ?up (Bytes video) fs = Inr fs0"
    using u by (cases "write_file ?up (Bytes video) fs") (auto simp: upload_video_def Let_def)
  obtain fs1 x1 where mk: "mkdir_parents True ?st fs0 = (fs1, x1)"
    by (cases "mkdir_parents True ?st fs0")
  have x1: "x1 = None" using u w mk by (cases x1) (auto simp: upload_video_def Let_def)
  obtain fs2 pm2 lg2 x2 where pv0: "process_video proj session_id m (fs1, [], [?up]) = ((fs2, pm2, lg2), x2)"
    by (cases "process_video proj session_id m (fs1, [], [?up])") auto
  from u w mk x1 pv0 have x2: "x2 = None" and eqs: "fs2 = fs'" "pm2 = pm" "lg2 = log"
    and sid: "sid = session_id"
    by (cases x2; simp add: upload_video_def Let_def)+
  from pv0 x2 eqs have pv: "process_video proj session_id m (fs1, [], [?up]) = ((fs', pm, log), None)"
    by simp
  have nl: "TEMP_ROOT proj @ [session_id, ''annotation.json''] \<notin> set [?up]"
    using ju roots_apart_uploads(3) [of proj "[session_id @ ''.mp4'']" "[session_id, ''annotation.json'']"]
    by simp
  from sid show "sid = session_id" .
  from process_video_ok(1) [OF assms(1) ps pv nl]
  show "count_list log (TEMP_ROOT proj @ [session_id, ''annotation.json'']) = 1" .
  from process_video_ok(2) [OF assms(1) ps pv nl]
  show "node_at fs' (TEMP_ROOT proj @ [session_id, ''annotation.json''])
          = Some (File (Json (json_persons pm)))" .
qed

theorem upload_video_snapshot_witness:
  "plain_path ex_proj \<and> uuid4_hex ex_uuid
   \<and> snd (snd (upload_video ex_proj ex_uuid ''video'' (Some ex_model) ex_fs))
       = Inr (ex_uuid, [(''person_1'', [''/temp/'' @ ex_uuid @ ''/person_1/f0_id1.jpg'',
                                         ''/temp/'' @ ex_uuid @ ''/person_1/f1_id1.jpg''])])
   \<and> count_list (fst (snd (upload_video ex_proj ex_uuid ''video'' (Some ex_model) ex_fs)))
        (TEMP_ROOT ex_proj @ [ex_uuid, ''annotation.json'']) = 1
   \<and> node_at (fst (upload_video ex_proj ex_uuid ''video'' (Some ex_model) ex_fs))
        (TEMP_ROOT ex_proj @ [ex_uuid, ''annotation.json''])
       = Some (File (Json (json_persons
           [(''person_1'', [''/temp/'' @ ex_uuid @ ''/person_1/f0_id1.jpg'',
                            ''/temp/'' @ ex_uuid @ ''/person_1/f1_id1.jpg''])])))
   \<and> snd (snd (upload_video ex_proj ex_uuid ''video'' None ex_fs)) = Inr (ex_uuid, [])
   \<and> \<not> exists (fst (upload_video ex_proj ex_uuid ''video'' None ex_fs))
         (TEMP_ROOT ex_proj @ [ex_uuid, ''annotation.json''])"
proof -
  let ?r = "upload_video ex_proj ex_uuid ''video'' (Some ex_model) ex_fs"
  let ?pm = "[(''person_1'', [''/temp/'' @ ex_uuid @ ''/person_1/f0_id1.jpg'',
                              ''/temp/'' @ ex_uuid @ ''/person_1/f1_id1.jpg''])]"
  have h1: "plain_path ex_proj" by code_simp
  have h2: "uuid4_hex ex_uuid" by code_simp
  have r: "snd (snd ?r) = Inr (ex_uuid, ?pm)" by code_simp
  have e: "?r = (fst ?r, fst (snd ?r), Inr (ex_uuid, ?pm))" using r by (metis prod.collapse)
  have g: "is_dir ex_fs (UPLOADS_DIR ex_proj) \<and> is_dir ex_fs (TEMP_ROOT ex_proj)
           \<and> \<not> exists ex_fs (join (UPLOADS_DIR ex_proj) (ex_uuid @ ''.mp4''))
           \<and> \<not> exists ex_fs (join (TEMP_ROOT ex_proj) ex_uuid)" by code_simp
  note t = upload_video_snapshot [OF h1 h2, of ex_fs "''video''"]
  from t e have
    "count_list (fst (snd ?r)) (TEMP_ROOT ex_proj @ [ex_uuid, ''annotation.json'']) = 1
     \<and> node_at (fst ?r) (TEMP_ROOT ex_proj @ [ex_uuid, ''annotation.json''])
         = Some (File (Json (json_persons ?pm)))"
    by blast
  moreover from t g have
    "snd (snd (upload_video ex_proj ex_uuid ''video'' None ex_fs)) = Inr (ex_uuid, [])
     \<and> \<not> exists (fst (upload_video ex_proj ex_uuid ''video'' None ex_fs))
           (TEMP_ROOT ex_proj @ [ex_uuid, ''annotation.json''])"
    by fastforce
  ultimately show ?thesis using h1 h2 r by blast
qed

subsection \<open>Directories with distinct names\<close>

lemma distinct_names_node_at:
  "distinct_names n \<Longrightarrow> node_at n p = Some m \<Longrightarrow> distinct_names m"
proof (induction n p rule: node_at.induct)
  case (1 n)
  then show ?case by simp
next
  case (2 d c cs)
  then show ?case by simp
next
  case (3 es c cs)
  from "3.prems"(2) obtain k where k: "map_of es c = Some k" and n: "node_at k cs = Some m"
    by (auto split: option.splits)
  from k have "(c, k) \<in> set es" by (rule map_of_SomeD)
  with "3.prems"(1) have "distinct_names k" by auto
  from "3.IH" [OF k this n] show ?case .
qed

lemma distinct_names_update:
  assumes "distinct_names (Dir es)" and "distinct_names m"
  shows "distinct_names (Dir (AList.update c m es))"
proof -
  have "distinct (map fst (AList.update c m es))" using assms(1) by (simp add: distinct_update)
  moreover have "\<forall>(a, b) \<in> set (AList.update c m es). distinct_names b"
  proof -
    { fix a b assume "(a, b) \<in> set (AList.update c m es)"
      then have "(a, b) = (c, m) \<or> (a, b) \<in> set es" by (rule set_alist_update)
      with assms have "distinct_names b" by auto }
    then show ?thesis by auto
  qed
  ultimately show ?thesis by simp
qed

lemma distinct_names_delete:
  assumes "distinct_names (Dir es)"
  shows "distinct_names (Dir (AList.delete c es))"
proof -
  have "distinct (map fst (AList.delete c es))" using assms by (simp add: distinct_delete)
  moreover have "set (AList.delete c es) \<subseteq> set es" by (auto simp: AList.delete_eq)
  ultimately show ?thesis using assms by auto
qed

lemma distinct_names_put:
  "distinct_names n \<Longrightarrow> (\<And>m. v = Some m \<Longrightarrow> distinct_names m) \<Longrightarrow> distinct_names (put p v n)"
proof (induction p v n rule: put.induct)
  case (1 v n)
  then show ?case by (cases v) auto
next
  case (2 c cs v d)
  then show ?case by simp
next
  case (3 c v es)
  show ?case
  proof (cases v)
    case None
    with "3.prems"(1) distinct_names_delete [of es c] show ?thesis by simp
  next
    case (Some m)
    with "3.prems" distinct_names_update [of es m c] show ?thesis by simp
  qed
next
  case (4 c d cs v es)
  show ?case
  proof (cases "map_of es c")
    case None
    with "4.prems"(1) show ?thesis by simp
  next
    case (Some k)
    then have "(c, k) \<in> set es" by (rule map_of_SomeD)
    with "4.prems"(1) have "distinct_names k" by auto
    from "4.IH" [OF Some this "4.prems"(2)] have "distinct_names (put (d # cs) v k)" by simp
    with Some "4.prems"(1) distinct_names_update [of es "put (d # cs) v k" c] show ?thesis by simp
  qed
qed


lemma distinct_names_put_None: "distinct_names n \<Longrightarrow> distinct_names (put p None n)"
  by (rule distinct_names_put) simp_all

lemma distinct_names_put_Some:
  "distinct_names n \<Longrightarrow> distinct_names m \<Longrightarrow> distinct_names (put p (Some m) n)"
  by (rule distinct_names_put) simp_all

lemma distinct_names_os_mkdir:
  "distinct_names n \<Longrightarrow> os_mkdir p n = Inr n' \<Longrightarrow> distinct_names n'"
  by (auto simp: os_mkdir_def distinct_names_put_Some split: sum.splits if_splits option.splits)

lemma distinct_names_mkdir_once:
  "distinct_names n \<Longrightarrow> mkdir_once e p n = (n', x) \<Longrightarrow> distinct_names n'"
  by (auto simp: mkdir_once_def distinct_names_os_mkdir split: sum.splits if_splits)

lemma distinct_names_mkdir_parents:
  "distinct_names n \<Longrightarrow> mkdir_parents e p n = (n', x) \<Longrightarrow> distinct_names n'"
proof (induction e p n arbitrary: n' x rule: mkdir_parents.induct)
  case (1 exist_ok p n)
  show ?case
  proof (cases "os_mkdir p n")
    case (Inr m)
    with "1.prems" have "n' = m" by (subst (asm) mkdir_parents.simps) simp
    with Inr "1.prems"(1) show ?thesis by (auto dest: distinct_names_os_mkdir)
  next
    case (Inl e)
    show ?thesis
    proof (cases "e = FileNotFoundError \<and> p \<noteq> []")
      case False
      with Inl "1.prems" have "n' = n"
        by (subst (asm) mkdir_parents.simps) (auto split: if_splits)
      with "1.prems"(1) show ?thesis by simp
    next
      case True
      obtain k y where k: "mkdir_parents True (butlast p) n = (k, y)"
        by (cases "mkdir_parents True (butlast p) n")
      from True have e: "e = FileNotFoundError" and p: "p \<noteq> []" by simp_all
      from "1.IH" [OF Inl e p "1.prems"(1) k] have dk: "distinct_names k" .
      show ?thesis
      proof (cases y)
        case (Some e')
        with Inl e p k "1.prems"(2) have "n' = k" by (subst (asm) mkdir_parents.simps) simp
        with dk show ?thesis by simp
      next
        case None
        with Inl e p k "1.prems"(2) have "mkdir_once exist_ok p k = (n', x)"
          by (subst (asm) mkdir_parents.simps) simp
        with dk show ?thesis by (rule distinct_names_mkdir_once)
      qed
    qed
  qed
qed

lemma distinct_names_unlink:
  "distinct_names n \<Longrightarrow> unlink p n = Inr n' \<Longrightarrow> distinct_names n'"
  by (auto simp: unlink_def distinct_names_put_None split: sum.splits option.splits node.splits)

lemma distinct_names_os_rename:
  assumes "distinct_names n" and "os_rename src dst n = Inr n'"
  shows "distinct_names n'"
proof -
  have m: "distinct_names (put a (Some s) (put b None n))" if "node_at n q = Some s" for a b q s
  proof -
    from assms(1) that have "distinct_names s" by (rule distinct_names_node_at)
    moreover have "distinct_names (put b None n)" using assms(1) by (rule distinct_names_put_None)
    ultimately show ?thesis by (simp add: distinct_names_put_Some)
  qed
  from assms show ?thesis
    by (auto simp: os_rename_def Let_def m
             split: sum.splits option.splits if_splits node.splits prod.splits)
qed

lemma distinct_names_shutil_move:
  "distinct_names n \<Longrightarrow> shutil_move src dst n = Inr n' \<Longrightarrow> distinct_names n'"
  by (auto simp: shutil_move_def Let_def split: if_splits sum.splits dest: distinct_names_os_rename)

lemma distinct_names_add_person:
  "distinct_names fs \<Longrightarrow> distinct_names (fst (add_person proj payload fs))"
  by (auto simp: add_person_def Let_def split: option.splits sum.splits prod.splits if_splits
           dest: distinct_names_mkdir_parents)

lemma distinct_names_delete_image:
  "distinct_names fs \<Longrightarrow> distinct_names (fst (delete_image proj payload fs))"
  by (auto simp: delete_image_def Let_def split: option.splits sum.splits if_splits
           dest: distinct_names_unlink)

lemma distinct_names_rename_person:
  "distinct_names fs \<Longrightarrow> distinct_names (fst (rename_person proj payload fs))"
  by (auto simp: rename_person_def Let_def split: option.splits sum.splits if_splits
           dest: distinct_names_os_rename)

lemma distinct_names_move_image:
  "distinct_names fs \<Longrightarrow> distinct_names (fst (move_image proj uuid payload fs))"
  by (auto simp: move_image_def Let_def split: option.splits sum.splits prod.splits if_splits
           dest: distinct_names_mkdir_parents distinct_names_shutil_move)

lemma distinct_names_apply:
  "distinct_names fs \<Longrightarrow> distinct_names (apply_correction proj fs cr)"
  by (cases cr) (simp_all add: distinct_names_add_person distinct_names_delete_image
        distinct_names_rename_person distinct_names_move_image)

lemma distinct_names_run:
  "distinct_names fs \<Longrightarrow> distinct_names (run_corrections proj cs fs)"
  unfolding run_corrections_def
  by (induction cs arbitrary: fs) (simp_all add: distinct_names_apply)

subsection \<open>What the listing shows\<close>

lemma distinct_names_entry: "distinct_names (Dir es) \<Longrightarrow> (c, m) \<in> set es \<Longrightarrow> distinct_names m"
  by auto

lemma in_alist_update_same: "(k, v) \<in> set (AList.update k v al)"
  by (induction al) auto

lemma in_alist_update_other: "(g, v) \<in> set al \<Longrightarrow> k \<noteq> g \<Longrightarrow> (g, v) \<in> set (AList.update k w al)"
  by (induction al) auto

lemma listing_fold_keep:
  assumes "(g, v) \<in> set acc" and "g \<notin> fst ` set xs"
  shows "(g, v) \<in> set (foldl
              (\<lambda>out (name, person_folder).
                 (case person_folder of
                    File d \<Rightarrow> out
                  | Dir fs' \<Rightarrow> AList.update name (F name fs') out))
              acc xs)"
  using assms
proof (induction xs arbitrary: acc)
  case Nil
  then show ?case by simp
next
  case (Cons x xs)
  obtain name m where x: "x = (name, m)" by (cases x)
  with Cons.prems have ne: "name \<noteq> g" and r: "g \<notin> fst ` set xs" by auto
  show ?case
  proof (cases m)
    case (File d)
    with x Cons.IH [OF Cons.prems(1) r] show ?thesis by simp
  next
    case (Dir gs)
    from Cons.prems(1) ne have "(g, v) \<in> set (AList.update name (F name gs) acc)"
      by (rule in_alist_update_other)
    from Cons.IH [OF this r] x Dir show ?thesis by simp
  qed
qed

lemma listing_fold_value:
  assumes "distinct (map fst xs)" and "(g, Dir gs) \<in> set xs"
  shows "(g, F g gs) \<in> set (foldl
              (\<lambda>out (name, person_folder).
                 (case person_folder of
                    File d \<Rightarrow> out
                  | Dir fs' \<Rightarrow> AList.update name (F name fs') out))
              acc xs)"
  using assms
proof (induction xs arbitrary: acc)
  case Nil
  then show ?case by simp
next
  case (Cons x xs)
  obtain name m where x: "x = (name, m)" by (cases x)
  from Cons.prems(1) x have d: "distinct (map fst xs)" and nn: "name \<notin> fst ` set xs" by auto
  show ?case
  proof (cases "(g, Dir gs) = x")
    case True
    with x have e: "name = g" "m = Dir gs" by simp_all
    have "(g, F g gs) \<in> set (AList.update g (F g gs) acc)" by (rule in_alist_update_same)
    from listing_fold_keep [OF this, of xs F] nn e x show ?thesis by simp
  next
    case False
    with Cons.prems(2) have "(g, Dir gs) \<in> set xs" by auto
    from Cons.IH [OF d this] x show ?thesis by (cases m) simp_all
  qed
qed

lemma listing_fold_keys:
  "fst ` set (foldl
              (\<lambda>out (name, person_folder).
                 (case person_folder of
                    File d \<Rightarrow> out
                  | Dir fs' \<Rightarrow> AList.update name (F name fs') out))
              acc xs)
     = fst ` set acc \<union> {g. \<exists>gs. (g, Dir gs) \<in> set xs}"
proof (induction xs arbitrary: acc)
  case Nil
  then show ?case by simp
next
  case (Cons x xs)
  obtain name m where x: "x = (name, m)" by (cases x)
  show ?case
  proof (cases m)
    case (File d)
    with x Cons.IH [of acc] show ?thesis by auto
  next
    case (Dir gs)
    with x Cons.IH [of "AList.update name (F name gs) acc"] show ?thesis
      by (auto simp: dom_update)
  qed
qed

lemma list_session_persons_plain:
  assumes "plain_path proj" and "plain_name s"
  shows "list_session_persons proj n s =
     (case node_at n (TEMP_ROOT proj @ [s]) of
        None \<Rightarrow> Inl (HTTPException 404 ''Session not found'')
      | Some (File d) \<Rightarrow> Inl NotADirectoryError
      | Some (Dir es) \<Rightarrow>
          Inr (foldl
                  (\<lambda>out (name, person_folder).
                     (case person_folder of
                        File d \<Rightarrow> out
                      | Dir fs' \<Rightarrow>
                          AList.update name
                            (map (\<lambda>(f, m). ''/temp/'' @ s @ ''/'' @ name @ ''/'' @ f)
                               (filter (\<lambda>(f, m). is_File m) (sort_key fst fs')))
                            out))
                  [] (sort_key fst es)))"
proof -
  let ?p = "TEMP_ROOT proj @ [s]"
  have pp: "plain_path ?p" using plain_roots(1) [OF assms(1)] assms(2) by (simp add: plain_path_def)
  have j: "join (TEMP_ROOT proj) s = ?p" using assms(2) by (rule join_plain)
  show ?thesis
  proof (cases "node_at n ?p")
    case None
    then have "\<not> exists n ?p" using exists_plain [OF pp] by simp
    with None j show ?thesis by (simp add: list_session_persons_def Let_def)
  next
    case (Some m)
    then have e: "exists n ?p" using exists_plain [OF pp] by simp
    from Some have st: "stat n ?p = Inr m" using stat_plain [OF pp] by simp
    from e st Some j show ?thesis
      by (cases m) (simp_all add: list_session_persons_def Let_def iterdir_def)
  qed
qed

lemma distinct_sort_keys: "distinct (map fst xs) \<Longrightarrow> distinct (map fst (sort_key fst xs))"
  by (simp add: distinct_map)

lemma listed_group_iff:
  assumes "plain_path proj" and "plain_name s" and "distinct_names n"
  shows "listed_group proj n s g \<longleftrightarrow> (\<exists>gs. node_at n (TEMP_ROOT proj @ [s, g]) = Some (Dir gs))"
proof -
  let ?p = "TEMP_ROOT proj @ [s]"
  have a: "node_at n (TEMP_ROOT proj @ [s, g]) = (case node_at n ?p of None \<Rightarrow> None | Some m \<Rightarrow> node_at m [g])"
    using node_at_append [of n ?p "[g]"] by simp
  show ?thesis
  proof (cases "node_at n ?p")
    case None
    with a show ?thesis by (simp add: listed_group_def list_session_persons_plain [OF assms(1,2)])
  next
    case (Some m)
    show ?thesis
    proof (cases m)
      case (File d)
      with Some a show ?thesis by (simp add: listed_group_def list_session_persons_plain [OF assms(1,2)])
    next
      case (Dir es)
      from assms(3) Some have "distinct_names m" by (rule distinct_names_node_at)
      then have d: "distinct (map fst es)" using Dir by simp
      have "(\<exists>gs. (g, Dir gs) \<in> set es) \<longleftrightarrow> (\<exists>gs. map_of es g = Some (Dir gs))"
        using d by auto
      moreover have "node_at n (TEMP_ROOT proj @ [s, g]) = (case map_of es g of None \<Rightarrow> None | Some k \<Rightarrow> Some k)"
        using a Some Dir by (simp split: option.splits)
      ultimately show ?thesis using Some Dir
        by (auto simp: listed_group_def list_session_persons_plain [OF assms(1,2)] listing_fold_keys
                 split: option.splits)
    qed
  qed
qed

lemma append_sep_inject:
  assumes "sep \<notin> set a" and "sep \<notin> set b" and "a' @ sep # b' = a @ sep # b"
  shows "a' = a \<and> b' = b"
  using assms
proof (induction a' arbitrary: a)
  case Nil
  then show ?case by (cases a) auto
next
  case (Cons x xs)
  show ?case
  proof (cases a)
    case Nil
    with Cons.prems show ?thesis by auto
  next
    case (Cons y ys)
    with Cons.prems Cons.IH [of ys] show ?thesis by auto
  qed
qed

lemma listed_image_iff:
  assumes "plain_path proj" and "plain_name s" and "plain_name g" and "plain_name f"
    and "distinct_names n"
  shows "listed_image proj n s (image_uri s g f)
           \<longleftrightarrow> (\<exists>d. node_at n (TEMP_ROOT proj @ [s, g, f]) = Some (File d))"
proof -
  let ?p = "TEMP_ROOT proj @ [s]"
  let ?F = "\<lambda>name fs'. map (\<lambda>(f, m). ''/temp/'' @ s @ ''/'' @ name @ ''/'' @ f)
                               (filter (\<lambda>(f, m). is_File m) (sort_key fst fs'))"
  have a: "node_at n (TEMP_ROOT proj @ [s, g, f]) = (case node_at n ?p of None \<Rightarrow> None | Some m \<Rightarrow> node_at m [g, f])"
    using node_at_append [of n ?p "[g, f]"] by simp
  from assms(3,4) have ns: "CHR ''/'' \<notin> set g" "CHR ''/'' \<notin> set f" by (auto simp: plain_name_def)
  show ?thesis
  proof (cases "node_at n ?p")
    case None
    with a show ?thesis by (simp add: listed_image_def list_session_persons_plain [OF assms(1,2)])
  next
    case (Some m)
    show ?thesis
    proof (cases m)
      case (File d)
      with Some a show ?thesis by (simp add: listed_image_def list_session_persons_plain [OF assms(1,2)])
    next
      case (Dir es)
      from assms(5) Some have "distinct_names m" by (rule distinct_names_node_at)
      then have de: "distinct_names (Dir es)" using Dir by (simp only:)
      then have d: "distinct (map fst es)" by simp
      let ?out = "foldl (\<lambda>out (name, person_folder).
                     (case person_folder of File d \<Rightarrow> out
                      | Dir fs' \<Rightarrow> AList.update name (?F name fs') out)) [] (sort_key fst es)"
      have l: "list_session_persons proj n s = Inr ?out"
        by (simp only: list_session_persons_plain [OF assms(1,2)] Some Dir option.case node.case)
      show ?thesis
      proof
        assume "listed_image proj n s (image_uri s g f)"
        with l obtain g' imgs where gi: "(g', imgs) \<in> set ?out" and u: "image_uri s g f \<in> set imgs"
          by (auto simp: listed_image_def)
        from listing_fold [of g' imgs ?F "[]" "sort_key fst es"] gi
        obtain gs where g': "(g', Dir gs) \<in> set es" and i: "imgs = ?F g' gs" by auto
        from u i obtain f' k where fk: "(f', k) \<in> set gs" "is_File k"
          and e: "image_uri s g f = ''/temp/'' @ s @ ''/'' @ g' @ ''/'' @ f'" by auto
        from e have "g' @ CHR ''/'' # f' = g @ CHR ''/'' # f" by (simp add: image_uri_def)
        from append_sep_inject [OF ns this] have eq: "g' = g" "f' = f" by simp_all
        from g' eq d have mg: "map_of es g = Some (Dir gs)" by simp
        from de g' have "distinct_names (Dir gs)" by (rule distinct_names_entry)
        then have "distinct (map fst gs)" by simp
        with fk eq have mf: "map_of gs f = Some k" by simp
        from fk(2) obtain c where "k = File c" by (cases k) auto
        with a Some Dir mg mf show "\<exists>d. node_at n (TEMP_ROOT proj @ [s, g, f]) = Some (File d)" by simp
      next
        assume "\<exists>d. node_at n (TEMP_ROOT proj @ [s, g, f]) = Some (File d)"
        then obtain c where c: "node_at n (TEMP_ROOT proj @ [s, g, f]) = Some (File c)" by blast
        with a Some Dir obtain k where mg: "map_of es g = Some k" and nk: "node_at k [f] = Some (File c)"
          by (auto split: option.splits)
        from nk obtain gs where k: "k = Dir gs" and mf: "map_of gs f = Some (File c)"
          by (cases k) (auto split: option.splits)
        from mg k have "(g, Dir gs) \<in> set es" by (auto dest: map_of_SomeD)
        then have "(g, Dir gs) \<in> set (sort_key fst es)" by simp
        from listing_fold_value [OF distinct_sort_keys [OF d] this, of ?F "[]"]
        have 1: "(g, ?F g gs) \<in> set ?out" .
        from mf have "(f, File c) \<in> set gs" by (rule map_of_SomeD)
        then have "image_uri s g f \<in> set (?F g gs)" by (force simp: image_uri_def)
        with 1 l show "listed_image proj n s (image_uri s g f)"
          by (force simp: listed_image_def)
      qed
    qed
  qed
qed

subsection \<open>Corrections in the listing\<close>

lemma split_image_uri:
  assumes "CHR ''/'' \<notin> set s" and "CHR ''/'' \<notin> set g" and "CHR ''/'' \<notin> set f"
  shows "split CHR ''/'' (image_uri s g f) = [[], ''temp'', s, g, f]"
proof -
  have 0: "split CHR ''/'' f = [f]" using assms(3) by (rule split_no_sep)
  have 1: "split CHR ''/'' (g @ CHR ''/'' # f) = g # split CHR ''/'' f"
    using assms(2) by (rule split_append_sep)
  have 2: "split CHR ''/'' (s @ CHR ''/'' # g @ CHR ''/'' # f) = s # split CHR ''/'' (g @ CHR ''/'' # f)"
    using assms(1) by (rule split_append_sep)
  have 3: "split CHR ''/'' (''temp'' @ CHR ''/'' # s @ CHR ''/'' # g @ CHR ''/'' # f)
             = ''temp'' # split CHR ''/'' (s @ CHR ''/'' # g @ CHR ''/'' # f)"
    by (rule split_append_sep) simp
  have 4: "split CHR ''/'' ([] @ CHR ''/'' # ''temp'' @ CHR ''/'' # s @ CHR ''/'' # g @ CHR ''/'' # f)
             = [] # split CHR ''/'' (''temp'' @ CHR ''/'' # s @ CHR ''/'' # g @ CHR ''/'' # f)"
    by (rule split_append_sep) simp
  have "image_uri s g f = [] @ CHR ''/'' # ''temp'' @ CHR ''/'' # s @ CHR ''/'' # g @ CHR ''/'' # f"
    by (simp add: image_uri_def)
  with 0 1 2 3 4 show ?thesis by (simp only:)
qed

lemma uri_path_image:
  assumes "plain_name s" and "plain_name g" and "plain_name f"
  shows "uri_path proj (image_uri s g f) = TEMP_ROOT proj @ [s, g, f]"
proof -
  from assms have "CHR ''/'' \<notin> set s" "CHR ''/'' \<notin> set g" "CHR ''/'' \<notin> set f"
    by (auto simp: plain_name_def)
  from split_image_uri [OF this] assms show ?thesis
    by (simp add: uri_path_def Let_def join_plain)
qed

lemma uri_parts_plain:
  assumes "plain_uri uri" and "5 \<le> length (split CHR ''/'' uri)"
  shows "plain_name (split CHR ''/'' uri ! 2)" and "plain_name (split CHR ''/'' uri ! 3)"
    and "plain_name (last (split CHR ''/'' uri))"
    and "join (join (join (TEMP_ROOT proj) (split CHR ''/'' uri ! 2)) (split CHR ''/'' uri ! 3))
           (last (split CHR ''/'' uri))
         = TEMP_ROOT proj @ [split CHR ''/'' uri ! 2, split CHR ''/'' uri ! 3, last (split CHR ''/'' uri)]"
proof -
  from assms show a: "plain_name (split CHR ''/'' uri ! 2)" and b: "plain_name (split CHR ''/'' uri ! 3)"
    and c: "plain_name (last (split CHR ''/'' uri))"
    by (auto simp: plain_uri_def Let_def)
  from a b c show "join (join (join (TEMP_ROOT proj) (split CHR ''/'' uri ! 2)) (split CHR ''/'' uri ! 3))
           (last (split CHR ''/'' uri))
         = TEMP_ROOT proj @ [split CHR ''/'' uri ! 2, split CHR ''/'' uri ! 3, last (split CHR ''/'' uri)]"
    by (simp add: join_plain)
qed

lemma unlink_plain_file:
  assumes "plain_path p" and "unlink p n = Inr n'"
  shows "\<exists>d. node_at n p = Some (File d)"
proof -
  from assms(2) obtain q d where w: "walk n [] p = Inr q" and f: "node_at n q = Some (File d)"
    by (auto simp: unlink_def split: sum.splits option.splits node.splits)
  from walk_plain [OF assms(1) w] f show ?thesis by auto
qed

lemma shown_add:
  assumes "plain_path proj" and "distinct_names fs"
  shows "shown proj (AddPerson payload) fs (fst (add_person proj payload fs))"
proof (cases "payload ''session_id''")
  case None
  then show ?thesis by simp
next
  case (Some s)
  show ?thesis
  proof (cases "snd (add_person proj payload fs)")
    case (Inl e)
    with Some show ?thesis by simp
  next
    case (Inr g)
    obtain fs' where ok: "add_person proj payload fs = (fs', Inr g)"
      using Inr by (cases "add_person proj payload fs") auto
    let ?new = "join (join (TEMP_ROOT proj) s) g"
    from ok Some have ne: "\<not> exists fs ?new" and m: "mkdir_parents False ?new fs = (fs', None)"
      by (auto simp: add_person_def Let_def split: if_splits option.splits sum.splits prod.splits)
    have "\<not> listed_group proj fs s g \<and> listed_group proj fs' s g" if pl: "plain_name s" "plain_name g"
    proof -
      let ?p = "TEMP_ROOT proj @ [s, g]"
      have j: "?new = ?p" using pl by (simp add: join_plain)
      have pp: "plain_path ?p" using pl plain_roots(1) [OF assms(1)] by (simp add: plain_path_def)
      from ne j have "node_at fs ?p = None" using exists_plain [OF pp] by simp
      then have 1: "\<not> listed_group proj fs s g"
        using listed_group_iff [OF assms(1) pl(1) assms(2)] by simp
      from mkdir_parents_is_dir [OF m] j have "\<exists>es. node_at fs' ?p = Some (Dir es)"
        using is_dir_plain [OF pp] by simp
      moreover have "distinct_names fs'" using assms(2) m by (rule distinct_names_mkdir_parents)
      ultimately have "listed_group proj fs' s g"
        using listed_group_iff [OF assms(1) pl(1)] by simp
      with 1 show ?thesis by simp
    qed
    with Some Inr ok show ?thesis by simp
  qed
qed

lemma shown_delete:
  assumes "plain_path proj" and "distinct_names fs" and "addresses_plain (DeleteImage payload)"
  shows "shown proj (DeleteImage payload) fs (fst (delete_image proj payload fs))"
proof (cases "payload ''path''")
  case None
  then show ?thesis by simp
next
  case (Some uri)
  show ?thesis
  proof (cases "snd (delete_image proj payload fs)")
    case (Inl e)
    with Some show ?thesis by simp
  next
    case (Inr a)
    let ?parts = "split CHR ''/'' uri"
    let ?s = "?parts ! 2" and ?g = "?parts ! 3" and ?f = "last ?parts"
    let ?p = "TEMP_ROOT proj @ [?s, ?g, ?f]"
    obtain fs' where ok: "delete_image proj payload fs = (fs', Inr a)"
      using Inr by (cases "delete_image proj payload fs") auto
    from ok Some have l: "5 \<le> length ?parts"
      and u: "unlink (join (join (join (TEMP_ROOT proj) ?s) ?g) ?f) fs = Inr fs'"
      by (auto simp: delete_image_def Let_def split: if_splits sum.splits)
    from assms(3) Some have pu: "plain_uri uri" by simp
    note pl = uri_parts_plain [OF pu l]
    have pp: "plain_path ?p" using pl(1-3) plain_roots(1) [OF assms(1)] by (simp add: plain_path_def)
    from u pl(4) have u': "unlink ?p fs = Inr fs'" by simp
    from unlink_plain_file [OF pp u'] have "\<exists>d. node_at fs ?p = Some (File d)" .
    then have 1: "listed_image proj fs ?s (image_uri ?s ?g ?f)"
      using listed_image_iff [OF assms(1) pl(1-3) assms(2)] by simp
    from unlink_plain [OF pp u'] have "node_at fs' ?p = None" by (simp add: node_at_put_None)
    moreover have "distinct_names fs'" using assms(2) u' by (rule distinct_names_unlink)
    ultimately have 2: "\<not> listed_image proj fs' ?s (image_uri ?s ?g ?f)"
      using listed_image_iff [OF assms(1) pl(1-3)] by simp
    from 1 2 Some Inr ok show ?thesis by (simp add: Let_def)
  qed
qed

lemma shown_rename:
  assumes "plain_path proj" and "distinct_names fs" and "addresses_plain (RenamePerson payload)"
  shows "shown proj (RenamePerson payload) fs (fst (rename_person proj payload fs))"
proof (cases "snd (rename_person proj payload fs)")
  case (Inl e)
  then show ?thesis by (simp split: option.splits)
next
  case (Inr a)
  obtain fs' where ok: "rename_person proj payload fs = (fs', Inr a)"
    using Inr by (cases "rename_person proj payload fs") auto
  from ok obtain s old new where p: "payload ''session_id'' = Some s"
      "payload ''old_name'' = Some old" "payload ''new_name'' = Some new"
    and ne: "\<not> exists fs (join (join (TEMP_ROOT proj) s) new)"
    and eo: "exists fs (join (join (TEMP_ROOT proj) s) old)"
    and r: "os_rename (join (join (TEMP_ROOT proj) s) old) (join (join (TEMP_ROOT proj) s) new) fs
              = Inr fs'"
    by (auto simp: rename_person_def Let_def split: option.splits if_splits sum.splits)
  from assms(3) p have pl: "plain_name s" "plain_name old" "plain_name new" by simp_all
  let ?old = "TEMP_ROOT proj @ [s, old]" and ?new = "TEMP_ROOT proj @ [s, new]"
  have jo: "join (join (TEMP_ROOT proj) s) old = ?old" and jn: "join (join (TEMP_ROOT proj) s) new = ?new"
    using pl by (simp_all add: join_plain)
  have po: "plain_path ?old" and pn: "plain_path ?new"
    using pl plain_roots(1) [OF assms(1)] by (simp_all add: plain_path_def)
  from ne eo jo jn have neq: "?old \<noteq> ?new" by auto
  from r jo jn have r': "os_rename ?old ?new fs = Inr fs'" by simp
  from ne jn have nn: "node_at fs ?new = None" using exists_plain [OF pn] by simp
  have d': "distinct_names fs'" using assms(2) r' by (rule distinct_names_os_rename)
  from os_rename_plain [OF po pn r' neq] obtain m es where m: "node_at fs ?old = Some m"
    and f: "fs' = put ?new (Some m) (put ?old None fs)"
    and np: "\<not> prefix ?old ?new" "\<not> prefix ?new ?old" and n0: "?new \<noteq> []" "?old \<noteq> []"
    and pd: "node_at fs (butlast ?new) = Some (Dir es)" by blast
  from moved_nodes [OF m f np n0 pd] have a1: "node_at fs' ?old = None" and a2: "node_at fs' ?new = Some m" .
  have "\<not> listed_group proj fs s new \<and> \<not> listed_group proj fs' s old \<and> listed_group proj fs' s new"
    if "listed_group proj fs s old"
  proof -
    from that m obtain gs where "m = Dir gs"
      using listed_group_iff [OF assms(1) pl(1) assms(2)] by auto
    with a1 a2 nn show ?thesis
      using listed_group_iff [OF assms(1) pl(1) assms(2)] listed_group_iff [OF assms(1) pl(1) d']
      by simp
  qed
  with p Inr ok show ?thesis by simp
qed

lemma suffixed_differs:
  assumes "uuid4_hex u" and "splitext f = (base, ext)"
  shows "base @ ''_'' @ take 6 u @ ext \<noteq> f"
proof
  assume e: "base @ ''_'' @ take 6 u @ ext = f"
  have "f = base @ ext" using assms(2) by (rule splitext_append)
  then have "length f = length base + length ext" by simp
  moreover have "length (base @ ''_'' @ take 6 u @ ext) = length base + 7 + length ext"
    using assms(1) by (simp add: uuid4_hex_def)
  moreover from e have "length (base @ ''_'' @ take 6 u @ ext) = length f" by (rule arg_cong)
  ultimately show False by linarith
qed

lemma shown_move:
  assumes "plain_path proj" and "distinct_names fs" and "addresses_plain (MoveImage uuid payload)"
  shows "shown proj (MoveImage uuid payload) fs (fst (move_image proj uuid payload fs))"
proof (cases "payload ''src''")
  case None
  then show ?thesis by simp
next
  case (Some src)
  show ?thesis
  proof (cases "snd (move_image proj uuid payload fs)")
    case (Inl e)
    with Some show ?thesis by simp
  next
    case (Inr new_web)
    let ?parts = "split CHR ''/'' src"
    let ?s = "?parts ! 2" and ?g = "?parts ! 3" and ?f = "last ?parts"
    let ?src = "TEMP_ROOT proj @ [?s, ?g, ?f]"
    obtain fs' where ok: "move_image proj uuid payload fs = (fs', Inr new_web)"
      using Inr by (cases "move_image proj uuid payload fs") auto
    from ok Some obtain dest where pd: "payload ''dest_person'' = Some dest"
      by (auto simp: move_image_def split: option.splits)
    from ok Some pd have l: "5 \<le> length ?parts"
      by (auto simp: move_image_def Let_def split: if_splits)
    from assms(3) Some pd have pu: "plain_uri src" and pld: "plain_name dest" and hx: "uuid4_hex uuid"
      by simp_all
    note pl = uri_parts_plain [OF pu l]
    let ?df = "TEMP_ROOT proj @ [?s, dest]"
    have jd: "join (join (TEMP_ROOT proj) ?s) dest = ?df" using pl(1) pld by (simp add: join_plain)
    obtain base ext where se: "splitext ?f = (base, ext)" by (cases "splitext ?f")
    let ?sfx = "base @ ''_'' @ take 6 uuid @ ext"
    have psf: "plain_name ?sfx" using suffixed_plain [OF pl(3) hx se] .
    have sne: "?sfx \<noteq> ?f" using suffixed_differs [OF hx se] .
    obtain fs1 x1 where m: "mkdir_parents True ?df fs = (fs1, x1)" by (cases "mkdir_parents True ?df fs")
    let ?n = "if exists fs1 (?df @ [?f]) then ?sfx else ?f"
    let ?dst = "?df @ [?n]"
    have jf: "join ?df ?f = ?df @ [?f]" "join ?df ?sfx = ?df @ [?sfx]"
      using pl(3) psf by (simp_all add: join_plain)
    from ok Some pd l pl(4) jd m se jf have x1: "x1 = None"
      by (auto simp: move_image_def Let_def split: if_splits option.splits sum.splits)
    from ok Some pd l pl(4) jd m se jf x1 have sm: "shutil_move ?src ?dst fs1 = Inr fs'"
      and nw: "new_web = image_uri ?s dest ?n"
      by (auto simp: move_image_def Let_def image_uri_def name_of_def split: if_splits sum.splits)
    have pn: "plain_name ?n" using pl(3) psf by simp
    have psrc: "plain_path ?src" and pdf: "plain_path ?df" and pdst: "plain_path ?dst"
      and preal: "plain_path (?dst @ [?f])"
      using pl(1-3) pld pn plain_roots(1) [OF assms(1)] by (simp_all add: plain_path_def)
    have d1: "distinct_names fs1" using assms(2) m by (rule distinct_names_mkdir_parents)
    have d': "distinct_names fs'" using d1 sm by (rule distinct_names_shutil_move)
    have up: "uri_path proj new_web = ?dst" using nw uri_path_image [OF pl(1) pld pn] by simp
    have fr: "node_at fs1 ?dst = node_at fs ?dst"
      using mkdir_parents_frame [OF pdf _ m, of ?dst] by simp
    have "\<not> listed_image proj fs' ?s (image_uri ?s ?g ?f)
          \<and> (\<not> is_dir fs (uri_path proj new_web) \<longrightarrow> listed_image proj fs' ?s new_web)"
      if li: "listed_image proj fs ?s (image_uri ?s ?g ?f)"
    proof -
      from li obtain d where sf: "node_at fs ?src = Some (File d)"
        using listed_image_iff [OF assms(1) pl(1-3) assms(2)] by auto
      from mkdir_parents_keeps_file [OF m sf] have k1: "node_at fs1 ?src = Some (File d)" .
      have neq: "?src \<noteq> ?dst"
      proof
        assume e: "?src = ?dst"
        then have g: "?g = dest" and n: "?f = ?n" by simp_all
        from n sne have "\<not> exists fs1 (?df @ [?f])" by (auto split: if_splits)
        moreover have "exists fs1 ?src" using k1 exists_plain [OF psrc] by simp
        ultimately show False using g by simp
      qed
      have gone: "node_at fs' ?src = None"
      proof (cases "is_dir fs1 ?dst")
        case False
        from shutil_move_plain [OF psrc pdst sm neq False] obtain x es where x: "node_at fs1 ?src = Some x"
          and f: "fs' = put ?dst (Some x) (put ?src None fs1)"
          and np: "\<not> prefix ?src ?dst" "\<not> prefix ?dst ?src" and n0: "?dst \<noteq> []" "?src \<noteq> []"
          and pd: "node_at fs1 (butlast ?dst) = Some (Dir es)" by blast
        from moved_nodes(1) [OF x f np n0 pd] show ?thesis .
      next
        case True
        then obtain ds where dd: "node_at fs1 ?dst = Some (Dir ds)" using is_dir_plain [OF pdst] by auto
        have w1: "walk fs1 [] ?src = Inr ?src" using walk_existing [OF psrc, of fs1 "[]"] k1 by simp
        have w2: "walk fs1 [] ?dst = Inr ?dst" using walk_existing [OF pdst, of fs1 "[]"] dd by simp
        from w1 w2 neq have wne: "walk fs1 [] ?src \<noteq> walk fs1 [] ?dst" by simp
        from sm True wne have r: "os_rename ?src (?dst @ [?f]) fs1 = Inr fs'"
          by (auto simp: shutil_move_def Let_def name_of_def split: if_splits sum.splits)
        have neq': "?src \<noteq> ?dst @ [?f]" by simp
        from os_rename_plain [OF psrc preal r neq'] obtain x es where x: "node_at fs1 ?src = Some x"
          and f: "fs' = put (?dst @ [?f]) (Some x) (put ?src None fs1)"
          and np: "\<not> prefix ?src (?dst @ [?f])" "\<not> prefix (?dst @ [?f]) ?src"
          and n0: "?dst @ [?f] \<noteq> []" "?src \<noteq> []"
          and pd: "node_at fs1 (butlast (?dst @ [?f])) = Some (Dir es)" by blast
        from moved_nodes(1) [OF x f np n0 pd] show ?thesis .
      qed
      then have 1: "\<not> listed_image proj fs' ?s (image_uri ?s ?g ?f)"
        using listed_image_iff [OF assms(1) pl(1-3) d'] by simp
      have 2: "listed_image proj fs' ?s new_web" if nd: "\<not> is_dir fs (uri_path proj new_web)"
      proof -
        from nd up fr have nd1: "\<not> is_dir fs1 ?dst"
          using is_dir_plain [OF pdst, of fs] is_dir_plain [OF pdst, of fs1] by simp
        from shutil_move_plain [OF psrc pdst sm neq nd1] obtain x es where x: "node_at fs1 ?src = Some x"
          and f: "fs' = put ?dst (Some x) (put ?src None fs1)"
          and np: "\<not> prefix ?src ?dst" "\<not> prefix ?dst ?src" and n0: "?dst \<noteq> []" "?src \<noteq> []"
          and pd: "node_at fs1 (butlast ?dst) = Some (Dir es)" by blast
        from moved_nodes(2) [OF x f np n0 pd] x k1 have "node_at fs' ?dst = Some (File d)" by simp
        then have "listed_image proj fs' ?s (image_uri ?s dest ?n)"
          using listed_image_iff [OF assms(1) pl(1) pld pn d'] by simp
        with nw show ?thesis by simp
      qed
      from 1 2 show ?thesis by blast
    qed
    with Some Inr ok show ?thesis by (simp add: Let_def)
  qed
qed

lemma shown_apply:
  assumes "plain_path proj" and "distinct_names fs" and "addresses_plain cr"
  shows "shown proj cr fs (apply_correction proj fs cr)"
proof (cases cr)
  case (AddPerson payload)
  with shown_add [OF assms(1,2)] show ?thesis by simp
next
  case (MoveImage uuid payload)
  with shown_move [OF assms(1,2)] assms(3) show ?thesis by simp
next
  case (DeleteImage payload)
  with shown_delete [OF assms(1,2)] assms(3) show ?thesis by simp
next
  case (RenamePerson payload)
  with shown_rename [OF assms(1,2)] assms(3) show ?thesis by simp
qed

lemma run_corrections_snoc:
  "run_corrections proj (cs @ [cr]) fs = apply_correction proj (run_corrections proj cs fs) cr"
  by (simp add: run_corrections_def)

lemma run_corrections_keep_snapshot:
  assumes "plain_path proj" and "list_all addresses_plain cs"
    and "node_at fs (TEMP_ROOT proj @ [session_id, ''annotation.json'']) = Some (File c)"
  shows "node_at (run_corrections proj cs fs) (TEMP_ROOT proj @ [session_id, ''annotation.json''])
           = Some (File c)"
  using assms(2,3) unfolding run_corrections_def
proof (induction cs arbitrary: fs)
  case Nil
  then show ?case by simp
next
  case (Cons cr cs)
  from Cons.prems have a: "addresses_plain cr" and b: "list_all addresses_plain cs" by simp_all
  from apply_correction_keeps_snapshot [OF assms(1) a Cons.prems(2)]
  have "node_at (apply_correction proj fs cr) (TEMP_ROOT proj @ [session_id, ''annotation.json''])
          = Some (File c)" .
  from Cons.IH [OF b this] show ?case by simp
qed

subsection \<open>The snapshot under corrections\<close>

text \<open>
  C4 (no correction rewrites the snapshot: after any sequence of corrections it holds
  what the pipeline wrote). No handler writes into a file, but the handlers move and
  remove what their requests name, and nothing keeps a request from naming the snapshot.
  On the example installation, renaming the ``group'' \<open>annotation.json\<close> succeeds and
  leaves no snapshot at its place; so does deleting the ``image''
  \<open>/temp/<session>/./annotation.json\<close>.
\<close>

theorem corrections_snapshot_counterexample:
  "node_at ex_fs (TEMP_ROOT ex_proj @ [ex_sid, ''annotation.json'']) = Some (File ex_snapshot)
   \<and> snd (rename_person ex_proj
        [''session_id'' \<mapsto> ex_sid, ''old_name'' \<mapsto> ''annotation.json'', ''new_name'' \<mapsto> ''gone'']
        ex_fs) = Inr (''annotation.json'', ''gone'')
   \<and> node_at (run_corrections ex_proj
        [RenamePerson [''session_id'' \<mapsto> ex_sid, ''old_name'' \<mapsto> ''annotation.json'',
                       ''new_name'' \<mapsto> ''gone'']] ex_fs)
        (TEMP_ROOT ex_proj @ [ex_sid, ''annotation.json'']) = None
   \<and> snd (delete_image ex_proj [''path'' \<mapsto> ''/temp/'' @ ex_sid @ ''/./annotation.json''] ex_fs)
       = Inr (''/temp/'' @ ex_sid @ ''/./annotation.json'')
   \<and> node_at (run_corrections ex_proj
        [DeleteImage [''path'' \<mapsto> ''/temp/'' @ ex_sid @ ''/./annotation.json'']] ex_fs)
        (TEMP_ROOT ex_proj @ [ex_sid, ''annotation.json'']) = None"
  by code_simp

text \<open>
  C4 as amended. Take corrections whose requests address by plain names: the session,
  the group and the file that a request names are single plain path components, and no
  renaming has \<open>annotation.json\<close> as its old name. After any sequence of such corrections
  (each may succeed or fail) the snapshot of a session is the file it was, with the
  content it had. And the listing, which is computed from the directories as they are,
  shows every correction of the sequence that succeeds: in a file system whose
  directories hold distinct names, the listing taken right after a correction differs
  from the listing taken right before it as \<open>shown\<close> says. In the witness the four
  corrections change the listing and leave the snapshot alone.
\<close>

theorem corrections_keep_snapshot:
  assumes "plain_path proj" and "list_all addresses_plain cs"
    and "node_at fs (TEMP_ROOT proj @ [session_id, ''annotation.json'']) = Some (File c)"
  shows "node_at (run_corrections proj cs fs) (TEMP_ROOT proj @ [session_id, ''annotation.json''])
           = Some (File c)
    \<and> (distinct_names fs \<longrightarrow>
         (\<forall>cs1 cr cs2. cs = cs1 @ cr # cs2 \<longrightarrow>
            shown proj cr (run_corrections proj cs1 fs) (run_corrections proj (cs1 @ [cr]) fs)))"
proof (intro conjI impI allI)
  show "node_at (run_corrections proj cs fs) (TEMP_ROOT proj @ [session_id, ''annotation.json''])
           = Some (File c)"
    using assms by (rule run_corrections_keep_snapshot)
next
  fix cs1 cr cs2
  assume d: "distinct_names fs" and e: "cs = cs1 @ cr # cs2"
  from assms(2) e have a: "addresses_plain cr" by simp
  from d have "distinct_names (run_corrections proj cs1 fs)" by (rule distinct_names_run)
  from shown_apply [OF assms(1) this a]
  show "shown proj cr (run_corrections proj cs1 fs) (run_corrections proj (cs1 @ [cr]) fs)"
    by (simp only: run_corrections_snoc)
qed

theorem corrections_keep_snapshot_witness:
  "plain_path ex_proj \<and> list_all addresses_plain [ex_move, ex_delete, ex_rename, ex_add]
   \<and> node_at ex_fs (TEMP_ROOT ex_proj @ [ex_sid, ''annotation.json'']) = Some (File ex_snapshot)
   \<and> distinct_names ex_fs
   \<and> node_at (run_corrections ex_proj [ex_move, ex_delete, ex_rename, ex_add] ex_fs)
        (TEMP_ROOT ex_proj @ [ex_sid, ''annotation.json'']) = Some (File ex_snapshot)
   \<and> shown ex_proj ex_move ex_fs (run_corrections ex_proj [ex_move] ex_fs)
   \<and> shown ex_proj ex_delete (run_corrections ex_proj [ex_move] ex_fs)
        (run_corrections ex_proj [ex_move, ex_delete] ex_fs)
   \<and> shown ex_proj ex_rename (run_corrections ex_proj [ex_move, ex_delete] ex_fs)
        (run_corrections ex_proj [ex_move, ex_delete, ex_rename] ex_fs)
   \<and> shown ex_proj ex_add (run_corrections ex_proj [ex_move, ex_delete, ex_rename] ex_fs)
        (run_corrections ex_proj [ex_move, ex_delete, ex_rename, ex_add] ex_fs)
   \<and> list_session_persons ex_proj ex_fs ex_sid
       = Inr [(''person_1'', [''/temp/'' @ ex_sid @ ''/person_1/f0_id1.jpg'']),
              (''person_2'', [''/temp/'' @ ex_sid @ ''/person_2/f0_id1.jpg'',
                              ''/temp/'' @ ex_sid @ ''/person_2/f0_id1_000000.jpg''])]
   \<and> list_session_persons ex_proj (run_corrections ex_proj [ex_move] ex_fs) ex_sid
       = Inr [(''person_1'', []),
              (''person_2'', [''/temp/'' @ ex_sid @ ''/person_2/f0_id1.jpg'',
                              ''/temp/'' @ ex_sid @ ''/person_2/f0_id1_000000.jpg'']),
              (''person_3'', [''/temp/'' @ ex_sid @ ''/person_3/f0_id1.jpg''])]
   \<and> list_session_persons ex_proj
        (run_corrections ex_proj [ex_move, ex_delete, ex_rename, ex_add] ex_fs) ex_sid
       = Inr [(''alice'', [''/temp/'' @ ex_sid @ ''/alice/f0_id1.jpg'']),
              (''person_1'', []),
              (''person_3'', [''/temp/'' @ ex_sid @ ''/person_3/f0_id1.jpg'']),
              (''person_4'', [])]"
proof -
  let ?cs = "[ex_move, ex_delete, ex_rename, ex_add]"
  have h1: "plain_path ex_proj" by code_simp
  have h2: "list_all addresses_plain ?cs" by code_simp
  have h3: "node_at ex_fs (TEMP_ROOT ex_proj @ [ex_sid, ''annotation.json'']) = Some (File ex_snapshot)"
    by code_simp
  have h4: "distinct_names ex_fs" by code_simp
  have l0: "list_session_persons ex_proj ex_fs ex_sid
       = Inr [(''person_1'', [''/temp/'' @ ex_sid @ ''/person_1/f0_id1.jpg'']),
              (''person_2'', [''/temp/'' @ ex_sid @ ''/person_2/f0_id1.jpg'',
                              ''/temp/'' @ ex_sid @ ''/person_2/f0_id1_000000.jpg''])]"
    by code_simp
  have l1: "list_session_persons ex_proj (run_corrections ex_proj [ex_move] ex_fs) ex_sid
       = Inr [(''person_1'', []),
              (''person_2'', [''/temp/'' @ ex_sid @ ''/person_2/f0_id1.jpg'',
                              ''/temp/'' @ ex_sid @ ''/person_2/f0_id1_000000.jpg'']),
              (''person_3'', [''/temp/'' @ ex_sid @ ''/person_3/f0_id1.jpg''])]"
    by code_simp
  have l4: "list_session_persons ex_proj (run_corrections ex_proj ?cs ex_fs) ex_sid
       = Inr [(''alice'', [''/temp/'' @ ex_sid @ ''/alice/f0_id1.jpg'']),
              (''person_1'', []),
              (''person_3'', [''/temp/'' @ ex_sid @ ''/person_3/f0_id1.jpg'']),
              (''person_4'', [])]"
    by code_simp
  note t = corrections_keep_snapshot [OF h1 h2 h3]
  from t have s: "node_at (run_corrections ex_proj ?cs ex_fs)
        (TEMP_ROOT ex_proj @ [ex_sid, ''annotation.json'']) = Some (File ex_snapshot)" by blast
  from t h4 have a: "\<And>cs1 cr cs2. ?cs = cs1 @ cr # cs2 \<Longrightarrow>
      shown ex_proj cr (run_corrections ex_proj cs1 ex_fs) (run_corrections ex_proj (cs1 @ [cr]) ex_fs)"
    by blast
  have s1: "shown ex_proj ex_move ex_fs (run_corrections ex_proj [ex_move] ex_fs)"
    using a [of "[]" ex_move "[ex_delete, ex_rename, ex_add]"] by (simp add: run_corrections_def)
  have s2: "shown ex_proj ex_delete (run_corrections ex_proj [ex_move] ex_fs)
        (run_corrections ex_proj [ex_move, ex_delete] ex_fs)"
    using a [of "[ex_move]" ex_delete "[ex_rename, ex_add]"] by simp
  have s3: "shown ex_proj ex_rename (run_corrections ex_proj [ex_move, ex_delete] ex_fs)
        (run_corrections ex_proj [ex_move, ex_delete, ex_rename] ex_fs)"
    using a [of "[ex_move, ex_delete]" ex_rename "[ex_add]"] by simp
  have s4: "shown ex_proj ex_add (run_corrections ex_proj [ex_move, ex_delete, ex_rename] ex_fs)
        (run_corrections ex_proj [ex_move, ex_delete, ex_rename, ex_add] ex_fs)"
    using a [of "[ex_move, ex_delete, ex_rename]" ex_add "[]"] by simp
  from h1 h2 h3 h4 s s1 s2 s3 s4 l0 l1 l4 show ?thesis by blast
qed

end
